theory Spec2Isabelle
  imports Complex_Main "HOL-Library.Log_Nat" "HOL-Library.Multiset"
begin

section \<open>Data Sweeper: a shallow embedding of \<^verbatim>\<open>src/main.py\<close>\<close>

text \<open>
  The program is a Streamlit page that loads uploaded CSV/Excel files with pandas,
  optionally removes duplicate rows and fills missing numeric values, projects the
  table on the chosen columns and offers the result for download.

  Modelling decisions, each stated where it is used:
  \<^item> Python strings are lists of characters; \<^verbatim>\<open>str.lower\<close> is modelled on the
    Latin-1 range.
  \<^item> \<^verbatim>\<open>os.path.splitext\<close> is the POSIX instance of \<^verbatim>\<open>genericpath._splitext\<close>.
  \<^item> A pandas DataFrame is a list of typed column labels and a list of rows. A number
    is a rational or one of the two infinities; float64 arithmetic rounds to the nearest
    binary64 value, ties to even, and overflows to an infinity; NaN is the missing
    cell. Signed zeros are not distinguished. Row labels (the index) are not modelled:
    no operation of the program reads them.
  \<^item> The order in which numpy adds the values of a column is not fixed by the source;
    the sum is a parameter, and the statements that need it assume that it adds the
    values in some order with float64 additions.
  \<^item> A message literal with characters beyond one byte is given by the UTF-8 bytes it
    has in the source file.
  \<^item> Streamlit widgets are reads of the user's choices, collected in a record; the
    elements the page renders are a list of events, with the number in place of a
    formatted message where the source interpolates one. Errors that Streamlit itself
    raises for two widgets of one identity are outside the model. The pandas parsers
    and writers are parameters of the same record, returning the exception text or the
    result.
\<close>

subsection \<open>Strings: \<^verbatim>\<open>str.lower\<close>, \<^verbatim>\<open>str.rfind\<close>, \<^verbatim>\<open>os.path.splitext\<close>, \<^verbatim>\<open>str.replace\<close>\<close>

definition lower_char :: "char \<Rightarrow> char" where
  "lower_char c =
     (let n = (of_char c :: nat)
      in if (65 \<le> n \<and> n \<le> 90) \<or> (192 \<le> n \<and> n \<le> 222 \<and> n \<noteq> 215)
         then char_of (n + 32) else c)"

definition lower :: "string \<Rightarrow> string" where
  "lower s = map lower_char s"

text \<open>\<^verbatim>\<open>p.rfind(c)\<close> for a one-character \<^verbatim>\<open>c\<close>: the highest index of \<^verbatim>\<open>c\<close>, or -1.\<close>

fun rfind :: "string \<Rightarrow> char \<Rightarrow> int" where
  "rfind [] c = - 1"
| "rfind (x # xs) c =
     (let r = rfind xs c
      in if r \<ge> 0 then r + 1 else if x = c then 0 else - 1)"

text \<open>
  The \<^verbatim>\<open>while filenameIndex < dotIndex\<close> loop of \<^verbatim>\<open>genericpath._splitext\<close>: the
  name is split at the last dot unless only dots precede it in the file name.
\<close>

function skip_leading_dots :: "string \<Rightarrow> char \<Rightarrow> int \<Rightarrow> int \<Rightarrow> string \<times> string" where
  "skip_leading_dots p extsep filenameIndex dotIndex =
     (if filenameIndex < dotIndex
      then (if take 1 (drop (nat filenameIndex) p) \<noteq> [extsep]
            then (take (nat dotIndex) p, drop (nat dotIndex) p)
            else skip_leading_dots p extsep (filenameIndex + 1) dotIndex)
      else (p, []))"
  by pat_completeness auto
termination
  by (relation "measure (\<lambda>(p, e, i, d). nat (d - i))") auto

declare skip_leading_dots.simps [simp del]

definition splitext_generic ::
  "string \<Rightarrow> char \<Rightarrow> char option \<Rightarrow> char \<Rightarrow> string \<times> string" where
  "splitext_generic p sep altsep extsep =
     (let sepIndex = rfind p sep;
          sepIndex = (case altsep of None \<Rightarrow> sepIndex
                      | Some a \<Rightarrow> max sepIndex (rfind p a));
          dotIndex = rfind p extsep
      in if dotIndex > sepIndex
         then skip_leading_dots p extsep (sepIndex + 1) dotIndex
         else (p, []))"

definition splitext :: "string \<Rightarrow> string \<times> string" where
  "splitext p = splitext_generic p (CHR ''/'') None (CHR ''.'')"

text \<open>
  \<^verbatim>\<open>s.replace(old, new)\<close>: every non-overlapping occurrence of \<^verbatim>\<open>old\<close>, found
  scanning from the left, is replaced. For the empty \<^verbatim>\<open>old\<close> Python inserts
  \<^verbatim>\<open>new\<close> before every character and at the end.
\<close>

function replace_scan :: "string \<Rightarrow> string \<Rightarrow> string \<Rightarrow> string" where
  "replace_scan old new s =
     (if s = [] \<or> old = [] then s
      else if take (length old) s = old
           then new @ replace_scan old new (drop (length old) s)
           else hd s # replace_scan old new (tl s))"
  by pat_completeness auto
termination
  by (relation "measure (\<lambda>(old, new, s). length s)") (auto simp: neq_Nil_conv)

declare replace_scan.simps [simp del]

definition replace :: "string \<Rightarrow> string \<Rightarrow> string \<Rightarrow> string" where
  "replace s old new =
     (if old = [] then new @ concat (map (\<lambda>c. c # new) s)
      else replace_scan old new s)"

subsection \<open>Tables\<close>

datatype dtype = Int64 | Float64 | Bool | Object

datatype cell = Missing | Num rat | PosInf | NegInf | Flag bool | Str string

record table =
  columns :: "(string \<times> dtype) list"
  rows :: "cell list list"

text \<open>
  The readers of pandas return tables with pairwise different column labels (repeated
  header cells are renamed) and rows as wide as the header.
\<close>

definition wf_table :: "table \<Rightarrow> bool" where
  "wf_table df \<longleftrightarrow>
     distinct (map fst (columns df)) \<and>
     list_all (\<lambda>r. length r = length (columns df)) (rows df)"

definition labels :: "table \<Rightarrow> string list" where
  "labels df = map fst (columns df)"

text \<open>\<^verbatim>\<open>df.empty\<close>: one of the two axes has length 0.\<close>

definition empty :: "table \<Rightarrow> bool" where
  "empty df \<longleftrightarrow> columns df = [] \<or> rows df = []"

definition head :: "table \<Rightarrow> table" where
  "head df = df\<lparr>rows := take 5 (rows df)\<rparr>"

definition cell_at :: "cell list \<Rightarrow> nat \<Rightarrow> cell" where
  "cell_at r j = (if j < length r then r ! j else Missing)"

definition column_values :: "table \<Rightarrow> nat \<Rightarrow> cell list" where
  "column_values df j = map (\<lambda>r. cell_at r j) (rows df)"

text \<open>
  Keeping the first occurrence of every value, in order (\<^verbatim>\<open>Index.unique\<close> on
  labels).
\<close>

fun keep_first :: "'a list \<Rightarrow> 'a list \<Rightarrow> 'a list" where
  "keep_first seen [] = []"
| "keep_first seen (x # xs) =
     (if x \<in> set seen then keep_first seen xs else x # keep_first (x # seen) xs)"

text \<open>
  \<^verbatim>\<open>drop_duplicates()\<close> (\<^verbatim>\<open>keep='first'\<close>, all columns) compares rows by the
  codes that \<^verbatim>\<open>factorize\<close> gives the cells of each column: cells get one code when
  Python's \<^verbatim>\<open>==\<close> and \<^verbatim>\<open>hash\<close> make them equal, so \<^verbatim>\<open>True\<close> is \<^verbatim>\<open>1\<close>
  and \<^verbatim>\<open>False\<close> is \<^verbatim>\<open>0\<close>, and all missing cells share a code. A row is dropped
  when an earlier row has the same codes; the kept row keeps its own cells.
\<close>

fun cell_key :: "cell \<Rightarrow> cell" where
  "cell_key (Flag b) = Num (if b then 1 else 0)"
| "cell_key c = c"

definition row_key :: "cell list \<Rightarrow> cell list" where
  "row_key r = map cell_key r"

fun keep_first_by :: "('a \<Rightarrow> 'b) \<Rightarrow> 'b list \<Rightarrow> 'a list \<Rightarrow> 'a list" where
  "keep_first_by key seen [] = []"
| "keep_first_by key seen (x # xs) =
     (if key x \<in> set seen then keep_first_by key seen xs
      else x # keep_first_by key (key x # seen) xs)"

definition drop_duplicates :: "table \<Rightarrow> table" where
  "drop_duplicates df = df\<lparr>rows := keep_first_by row_key [] (rows df)\<rparr>"

text \<open>\<^verbatim>\<open>select_dtypes(include='number')\<close> keeps integer and float columns.\<close>

definition is_number :: "dtype \<Rightarrow> bool" where
  "is_number d \<longleftrightarrow> d = Int64 \<or> d = Float64"

subsection \<open>float64 arithmetic\<close>

text \<open>
  A float64 value is a cell: \<open>Num\<close> of a rational, an infinity, or \<open>Missing\<close> for
  NaN. An operation computes the exact result and rounds it: to the nearest multiple of
  the unit in the last place of its binade (52 fraction bits, subnormal below
  \<open>pow2 (- 1022)\<close>), a tie to the even multiple, and to an infinity when the rounded
  value reaches \<open>pow2 1024\<close>.
\<close>

definition pow2 :: "int \<Rightarrow> rat" where
  "pow2 k = (if k \<ge> 0 then 2 ^ nat k else 1 / 2 ^ nat (- k))"

text \<open>The exponent of a positive rational: \<open>pow2 e \<le> a < pow2 (e + 1)\<close>.\<close>

definition floor_log2 :: "rat \<Rightarrow> int" where
  "floor_log2 a =
     (let (n, d) = quotient_of a; k = bitlen n - bitlen d
      in if pow2 k \<le> a then k else k - 1)"

definition round_half_even :: "rat \<Rightarrow> int" where
  "round_half_even r =
     (let f = \<lfloor>r\<rfloor>; d = r - of_int f
      in if d < 1 / 2 then f else if 1 / 2 < d then f + 1
         else if even f then f else f + 1)"

definition round64 :: "rat \<Rightarrow> cell" where
  "round64 x =
     (if x = 0 then Num 0
      else (let a = \<bar>x\<bar>; e = floor_log2 a
            in if e > 1023 then (if x > 0 then PosInf else NegInf)
               else (let ulp = pow2 (max e (- 1022) - 52);
                         y = of_int (round_half_even (a / ulp)) * ulp
                     in if e = 1023
                        then (if pow2 1024 \<le> y then (if x > 0 then PosInf else NegInf)
                              else Num (if x > 0 then y else - y))
                        else Num (if x > 0 then y else - y))))"

fun fadd :: "cell \<Rightarrow> cell \<Rightarrow> cell" where
  "fadd (Num a) (Num b) = round64 (a + b)"
| "fadd PosInf NegInf = Missing"
| "fadd NegInf PosInf = Missing"
| "fadd PosInf PosInf = PosInf"
| "fadd PosInf (Num b) = PosInf"
| "fadd (Num a) PosInf = PosInf"
| "fadd NegInf NegInf = NegInf"
| "fadd NegInf (Num b) = NegInf"
| "fadd (Num a) NegInf = NegInf"
| "fadd a b = Missing"

text \<open>Division by a positive count.\<close>

fun fdiv :: "cell \<Rightarrow> nat \<Rightarrow> cell" where
  "fdiv (Num a) n = round64 (a / of_nat n)"
| "fdiv PosInf n = PosInf"
| "fdiv NegInf n = NegInf"
| "fdiv a n = Missing"

text \<open>The conversion of a numeric cell to float64 (\<^verbatim>\<open>dtype=np.float64\<close>).\<close>

fun to_float64 :: "cell \<Rightarrow> cell" where
  "to_float64 (Num a) = round64 a"
| "to_float64 PosInf = PosInf"
| "to_float64 NegInf = NegInf"
| "to_float64 c = Missing"

subsection \<open>The page: widgets, rendered elements, pandas I/O\<close>

datatype event =
    Progress rat
  | Header string
  | Error string
  | Warning string
  | Size_written nat
  | Dataframe table
  | Sidebar_removed int
  | Sidebar_filled
  | Bar_chart table
  | Download_button string string string string
  | Progress_empty
  | Success string

record env =
  sidebar_checkbox :: "string \<Rightarrow> bool"
  checkbox :: "string \<Rightarrow> bool"
  multiselect :: "string \<Rightarrow> string list \<Rightarrow> string list"
  sidebar_radio :: "string \<Rightarrow> string list \<Rightarrow> string"
  read_csv :: "string \<Rightarrow> string + table"
  read_excel :: "string \<Rightarrow> string + table"
  to_csv :: "table \<Rightarrow> string + string"
  to_excel :: "table \<Rightarrow> string + string"
  np_sum :: "cell list \<Rightarrow> cell"

record uploaded_file =
  name :: string
  content :: string
  fsize :: nat

datatype error = KeyError "string list"

subsection \<open>Filling missing numeric values\<close>

fun is_float :: "cell \<Rightarrow> bool" where
  "is_float (Num a) = True"
| "is_float PosInf = True"
| "is_float NegInf = True"
| "is_float c = False"

text \<open>The non-missing values of a numeric column.\<close>

definition present :: "cell list \<Rightarrow> cell list" where
  "present col = filter is_float col"

text \<open>
  \<^verbatim>\<open>mean()\<close> of a column (\<^verbatim>\<open>nanops.nanmean\<close>, \<^verbatim>\<open>skipna=True\<close>): the float64 sum of
  the non-missing values divided by their count, and NaN when the count is 0. (The
  zeros that stand in for the missing values in the sum change no float64 value.)
\<close>

definition mean :: "env \<Rightarrow> cell list \<Rightarrow> cell" where
  "mean e col =
     (let vals = map to_float64 (present col)
      in if vals = [] then Missing else fdiv (np_sum e vals) (length vals))"

text \<open>\<^verbatim>\<open>fillna(v)\<close> on one cell; filling with NaN changes nothing.\<close>

definition fillna :: "cell \<Rightarrow> cell \<Rightarrow> cell" where
  "fillna v c = (if c = Missing then v else c)"

text \<open>
  The fill value of column \<open>j\<close> in
  \<^verbatim>\<open>df[numeric_cols] = df[numeric_cols].fillna(df[numeric_cols].mean())\<close>:
  the mean of the column when it is one of \<^verbatim>\<open>numeric_cols\<close>, and no fill otherwise.
  Columns are addressed by position; with the pairwise different labels of a table
  this is the label-wise assignment of pandas.
\<close>

definition fill_value :: "env \<Rightarrow> table \<Rightarrow> nat \<Rightarrow> cell" where
  "fill_value e df j =
     (if j < length (columns df) \<and> is_number (snd (columns df ! j))
      then mean e (column_values df j) else Missing)"

definition fillna_mean :: "env \<Rightarrow> table \<Rightarrow> table" where
  "fillna_mean e df =
     df\<lparr>rows := map (\<lambda>r. map (\<lambda>j. fillna (fill_value e df j) (r ! j)) [0..<length r])
                    (rows df)\<rparr>"

subsection \<open>\<^verbatim>\<open>load_data\<close>\<close>

definition load_data :: "env \<Rightarrow> uploaded_file \<Rightarrow> table option \<times> event list" where
  "load_data e file =
     (let ext = lower (snd (splitext (name file)))
      in if ext = ''.csv''
         then (case read_csv e (content file) of
                 Inr df \<Rightarrow> (Some df, [])
               | Inl msg \<Rightarrow> (None, [Error (''Error loading '' @ name file @ '': '' @ msg)]))
         else if ext = ''.xlsx''
         then (case read_excel e (content file) of
                 Inr df \<Rightarrow> (Some df, [])
               | Inl msg \<Rightarrow> (None, [Error (''Error loading '' @ name file @ '': '' @ msg)]))
         else (None, [Error (''Unsupported file type: '' @ ext)]))"

subsection \<open>\<^verbatim>\<open>clean_data\<close>\<close>

definition clean_data :: "env \<Rightarrow> table \<Rightarrow> string \<Rightarrow> table \<times> event list" where
  "clean_data e df file_name =
     (let (df, ev1) =
            (if sidebar_checkbox e (''Remove duplicates in '' @ file_name)
             then (let initial_rows = int (length (rows df));
                       df = drop_duplicates df
                   in (df, [Sidebar_removed (initial_rows - int (length (rows df)))]))
             else (df, []));
          (df, ev2) =
            (if sidebar_checkbox e (''Fill missing values in '' @ file_name)
             then (fillna_mean e df, [Sidebar_filled])
             else (df, []))
      in (df, ev1 @ ev2))"

subsection \<open>\<^verbatim>\<open>handle_column_selection\<close>\<close>

text \<open>
  \<^verbatim>\<open>df[key]\<close> for a list of labels: a label that is not a column raises KeyError,
  whose message lists the whole key when none of it was found and the distinct
  missing labels otherwise; a found label selects every column that carries it.
\<close>

definition getitem_columns :: "table \<Rightarrow> string list \<Rightarrow> error + table" where
  "getitem_columns df key =
     (let missing = filter (\<lambda>k. k \<notin> set (labels df)) key
      in if missing \<noteq> []
         then Inl (KeyError (if length missing = length key then key
                             else keep_first [] missing))
         else (let idx = concat (map (\<lambda>k. filter (\<lambda>j. labels df ! j = k)
                                               [0..<length (labels df)]) key)
               in Inr \<lparr>columns = map (\<lambda>j. columns df ! j) idx,
                       rows = map (\<lambda>r. map (\<lambda>j. cell_at r j) idx) (rows df)\<rparr>))"

definition handle_column_selection :: "env \<Rightarrow> table \<Rightarrow> string \<Rightarrow> error + table" where
  "handle_column_selection e df file_name =
     (let selected_columns = multiselect e (''Select columns for '' @ file_name) (labels df)
      in if selected_columns = labels df then Inr df
         else if set selected_columns = set (labels df)
         then getitem_columns df selected_columns
         else getitem_columns df selected_columns)"

subsection \<open>\<^verbatim>\<open>convert_file\<close>\<close>

definition download_name :: "string \<Rightarrow> string \<Rightarrow> string" where
  "download_name file_name new_ext = replace file_name (snd (splitext file_name)) new_ext"

definition convert_file :: "env \<Rightarrow> table \<Rightarrow> string \<Rightarrow> string \<Rightarrow> event list" where
  "convert_file e df file_name target_format =
     (let (written, mime, new_ext) =
            (if target_format = ''CSV''
             then (to_csv e df, ''text/csv'', ''.csv'')
             else (to_excel e df,
                   ''application/vnd.openxmlformats-officedocument.spreadsheetml.sheet'',
                   ''.xlsx''))
      in case written of
           Inl msg \<Rightarrow> [Error (''Conversion failed: '' @ msg)]
         | Inr buffer \<Rightarrow>
             [Download_button (''Download '' @ download_name file_name new_ext) buffer
                (download_name file_name new_ext) mime])"

subsection \<open>\<^verbatim>\<open>main\<close>\<close>

text \<open>
  \<^verbatim>\<open>df.select_dtypes(include='number').iloc[:, :2]\<close>: the first two numeric columns.
\<close>

definition numeric_head2 :: "table \<Rightarrow> table" where
  "numeric_head2 df =
     (let idx = take 2 (filter (\<lambda>j. is_number (snd (columns df ! j)))
                               [0..<length (columns df)])
      in \<lparr>columns = map (\<lambda>j. columns df ! j) idx,
          rows = map (\<lambda>r. map (\<lambda>j. cell_at r j) idx) (rows df)\<rparr>)"

text \<open>
  One pass of the \<^verbatim>\<open>for i, file in enumerate(uploaded_files)\<close> body: the elements
  it renders and the exception that leaves it, if any. Only
  \<^verbatim>\<open>handle_column_selection\<close> can raise here: \<^verbatim>\<open>load_data\<close> and
  \<^verbatim>\<open>convert_file\<close> catch theirs.
\<close>

definition process_file ::
  "env \<Rightarrow> string \<Rightarrow> nat \<Rightarrow> nat \<Rightarrow> uploaded_file \<Rightarrow> event list \<times> error option" where
  "process_file e conversion_format n_files i file =
     (let pre = [Progress (of_nat (i + 1) / of_nat n_files),
                 Header (''Processing: '' @ name file)];
          (loaded, lev) = load_data e file;
          skip = (pre @ lev @ [Warning (''Skipping empty/invalid file: '' @ name file)], None)
      in case loaded of
           None \<Rightarrow> skip
         | Some df \<Rightarrow>
             if empty df then skip
             else (let shown = [Size_written (fsize file), Dataframe (head df)];
                       (df, cev) = clean_data e df (name file)
                   in case handle_column_selection e df (name file) of
                        Inl err \<Rightarrow> (pre @ lev @ shown @ cev, Some err)
                      | Inr df \<Rightarrow>
                          (let vev = (if checkbox e (''Show visualization for '' @ name file)
                                      then [Bar_chart (numeric_head2 df)] else [])
                           in (pre @ lev @ shown @ cev @ vev
                                 @ convert_file e df (name file) conversion_format,
                               None))))"

fun process_files ::
  "env \<Rightarrow> string \<Rightarrow> nat \<Rightarrow> nat \<Rightarrow> uploaded_file list \<Rightarrow> event list \<times> error option" where
  "process_files e conversion_format n_files i [] = ([], None)"
| "process_files e conversion_format n_files i (file # rest) =
     (case process_file e conversion_format n_files i file of
        (ev, Some err) \<Rightarrow> (ev, Some err)
      | (ev, None) \<Rightarrow>
          (case process_files e conversion_format n_files (i + 1) rest of
             (ev', r) \<Rightarrow> (ev @ ev', r)))"

text \<open>The text of the closing message.\<close>

definition all_processed :: string where
  "all_processed =
     [CHR 0xEF, CHR 0xA3, CHR 0xBF, CHR 0xC3, CHR 0xBC, CHR 0xC3, CHR 0xA9, CHR 0xC3, CHR 0xA2]
       @ '' All files processed successfully!''"

text \<open>
  \<^verbatim>\<open>main\<close> after the static page header: nothing more is rendered without uploads;
  otherwise the progress bar, the loop, and the closing message when no exception
  left the loop.
\<close>

definition main :: "env \<Rightarrow> uploaded_file list \<Rightarrow> event list \<times> error option" where
  "main e uploaded_files =
     (if uploaded_files = [] then ([], None)
      else (let conversion_format = sidebar_radio e ''Choose output format:'' [''CSV'', ''Excel''];
                (ev, r) = process_files e conversion_format (length uploaded_files) 0
                            uploaded_files
            in case r of
                 Some err \<Rightarrow> (Progress 0 # ev, Some err)
               | None \<Rightarrow>
                   (Progress 0 # ev @ [Progress_empty, Success all_processed], None)))"

subsection \<open>Vocabulary of the statements\<close>

text \<open>\<^verbatim>\<open>old in s\<close>: \<open>old\<close> occurs in \<open>s\<close> as a substring.\<close>

fun contains :: "string \<Rightarrow> string \<Rightarrow> bool" where
  "contains old [] \<longleftrightarrow> old = []"
| "contains old (c # cs) \<longleftrightarrow> take (length old) (c # cs) = old \<or> contains old cs"

text \<open>\<^verbatim>\<open>sep.join(pieces)\<close>.\<close>

fun join :: "string \<Rightarrow> string list \<Rightarrow> string" where
  "join sep [] = []"
| "join sep [p] = p"
| "join sep (p # q # ps) = p @ sep @ join sep (q # ps)"

text \<open>
  The replacement policy in the words of the specification, "replace only the first
  occurrence of the original extension substring" (\<^verbatim>\<open>s.replace(old, new, 1)\<close>); the
  program does not call it.
\<close>

function spec_replace_first :: "string \<Rightarrow> string \<Rightarrow> string \<Rightarrow> string" where
  "spec_replace_first s old new =
     (if take (length old) s = old then new @ drop (length old) s
      else if s = [] then []
      else hd s # spec_replace_first (tl s) old new)"
  by pat_completeness auto
termination
  by (relation "measure (\<lambda>(s, old, new). length s)") (auto simp: neq_Nil_conv)

declare spec_replace_first.simps [simp del]




text \<open>
  The arithmetic mean of the non-missing values of a column in the words of the
  specification, for a column of finite numbers.
\<close>

definition spec_column_mean :: "cell list \<Rightarrow> rat" where
  "spec_column_mean col =
     (let vals = concat (map (\<lambda>c. case c of Num x \<Rightarrow> [x] | _ \<Rightarrow> []) col)
      in sum_list vals / of_nat (length vals))"

text \<open>
  \<open>adds_up xs s\<close>: \<open>s\<close> is a float64 sum of the values \<open>xs\<close>, added in some order:
  partial sums of disjoint parts are added until one sum is left. Sequential, pairwise
  and unrolled summation are of this form. \<open>ieee_sum e\<close>: the sum of the page state
  \<open>e\<close> is one of them. \<open>seq_sum\<close> adds from the left.
\<close>

inductive adds_up :: "cell list \<Rightarrow> cell \<Rightarrow> bool" where
  single: "adds_up [x] x"
| plus: "adds_up xs a \<Longrightarrow> adds_up ys b \<Longrightarrow> mset zs = mset xs + mset ys \<Longrightarrow>
         adds_up zs (fadd a b)"

definition ieee_sum :: "env \<Rightarrow> bool" where
  "ieee_sum e \<longleftrightarrow> (\<forall>xs. xs \<noteq> [] \<longrightarrow> adds_up xs (np_sum e xs))"

fun seq_sum :: "cell list \<Rightarrow> cell" where
  "seq_sum [] = Num 0"
| "seq_sum (x # xs) = foldl fadd x xs"

text \<open>The table that reaches the fill step of \<^verbatim>\<open>clean_data\<close>.\<close>

definition before_fill :: "env \<Rightarrow> table \<Rightarrow> string \<Rightarrow> table" where
  "before_fill e df file_name =
     (if sidebar_checkbox e (''Remove duplicates in '' @ file_name)
      then drop_duplicates df else df)"

text \<open>
  The column positions that \<^verbatim>\<open>df[key]\<close> reads, label by label (the index list of
  \<open>getitem_columns\<close>).
\<close>

definition positions :: "string list \<Rightarrow> string list \<Rightarrow> nat list" where
  "positions ls key = concat (map (\<lambda>k. filter (\<lambda>j. ls ! j = k) [0..<length ls]) key)"

text \<open>
  A small page state for concrete runs: the two sidebar boxes are set by \<open>dedup\<close>
  and \<open>fill\<close>, the column picker answers \<open>pick\<close> of the offered labels, the
  reader takes the first character as the header of one float column and every
  further character as a row (a digit, or \<^verbatim>\<open>-\<close> for a missing value), and sums are
  added from the left.
\<close>

definition toy_read :: "string \<Rightarrow> string + table" where
  "toy_read s =
     (if s = [] then Inl ''No columns to parse from file''
      else Inr \<lparr>columns = [([hd s], Float64)],
                rows = map (\<lambda>c. [if c = CHR ''-'' then Missing
                                  else Num (of_nat (of_char c - 48))]) (tl s)\<rparr>)"

definition toy_write :: "table \<Rightarrow> string + string" where
  "toy_write df = Inr (concat (labels df))"

definition toy_page :: "bool \<Rightarrow> bool \<Rightarrow> (string list \<Rightarrow> string list) \<Rightarrow> env" where
  "toy_page dedup fill pick =
     \<lparr>sidebar_checkbox = (\<lambda>label. if take 6 label = ''Remove'' then dedup else fill),
      checkbox = (\<lambda>label. False),
      multiselect = (\<lambda>label options. pick options),
      sidebar_radio = (\<lambda>label options. hd options),
      read_csv = toy_read,
      read_excel = toy_read,
      to_csv = toy_write,
      to_excel = toy_write,
      np_sum = seq_sum\<rparr>"

text \<open>
  What one pass over the uploads leaves on the page: the file is skipped when
  \<^verbatim>\<open>df is None or df.empty\<close>; the texts of the warnings, of the per-file headers
  and the file names of the download buttons, in the order they are rendered; the
  extension \<^verbatim>\<open>convert_file\<close> chooses for a target format.
\<close>

definition skipped :: "env \<Rightarrow> uploaded_file \<Rightarrow> bool" where
  "skipped e file \<longleftrightarrow>
     (case fst (load_data e file) of None \<Rightarrow> True | Some df \<Rightarrow> empty df)"

definition warnings :: "event list \<Rightarrow> string list" where
  "warnings evs = concat (map (\<lambda>ev. case ev of Warning w \<Rightarrow> [w] | _ \<Rightarrow> []) evs)"

definition headers :: "event list \<Rightarrow> string list" where
  "headers evs = concat (map (\<lambda>ev. case ev of Header h \<Rightarrow> [h] | _ \<Rightarrow> []) evs)"

definition downloads :: "event list \<Rightarrow> string list" where
  "downloads evs =
     concat (map (\<lambda>ev. case ev of Download_button l b n m \<Rightarrow> [n] | _ \<Rightarrow> []) evs)"

definition new_ext_of :: "string \<Rightarrow> string" where
  "new_ext_of target_format = (if target_format = ''CSV'' then ''.csv'' else ''.xlsx'')"

text \<open>Three uploads for a concrete run; the second has a header and no row.\<close>

definition file_a :: uploaded_file where
  "file_a = \<lparr>name = ''a.csv'', content = ''h12'', fsize = 3\<rparr>"

definition file_b :: uploaded_file where
  "file_b = \<lparr>name = ''b.csv'', content = ''h'', fsize = 1\<rparr>"

definition file_c :: uploaded_file where
  "file_c = \<lparr>name = ''c.xlsx'', content = ''h5'', fsize = 2\<rparr>"

section \<open>Properties\<close>

subsection \<open>String replacement and extension splitting\<close>

lemma replace_scan_Nil [simp]: "replace_scan old new [] = []"
  by (simp add: replace_scan.simps)

lemma replace_scan_hit:
  "old \<noteq> [] \<Longrightarrow> replace_scan old new (old @ rest) = new @ replace_scan old new rest"
  by (subst replace_scan.simps) simp

lemma replace_scan_miss:
  "take (length old) (c # cs) \<noteq> old \<Longrightarrow>
   replace_scan old new (c # cs) = c # replace_scan old new cs"
  by (subst replace_scan.simps) (auto simp: replace_scan.simps)

lemma replace_scan_absent:
  "\<not> contains old s \<Longrightarrow> replace_scan old new s = s"
  by (induction s) (auto simp: replace_scan_miss)

lemma dotted_no_straddle:
  assumes "d \<notin> set r" and "\<not> contains (d # r) (c # cs)"
  shows "take (length (d # r)) (c # cs @ (d # r) @ rest) \<noteq> d # r"
proof
  assume eq: "take (length (d # r)) (c # cs @ (d # r) @ rest) = d # r"
  show False
  proof (cases "length (d # r) \<le> length (c # cs)")
    case True
    then have "take (length (d # r)) (c # cs) = d # r"
      using eq by (simp add: take_Cons')
    with assms(2) show False by simp
  next
    case False
    then have "length cs < length r" by simp
    from eq have "c = d" and r: "take (length r) (cs @ (d # r) @ rest) = r" by simp_all
    have "r ! length cs = take (length r) (cs @ (d # r) @ rest) ! length cs"
      using r by (simp only:)
    also have "\<dots> = (cs @ (d # r) @ rest) ! length cs"
      using \<open>length cs < length r\<close> by (simp only: nth_take)
    also have "\<dots> = d" by (simp add: nth_append)
    finally have "r ! length cs = d" .
    with \<open>length cs < length r\<close> assms(1) show False
      using nth_mem by fastforce
  qed
qed

lemma replace_scan_piece:
  assumes "d \<notin> set r"
  shows "\<not> contains (d # r) p \<Longrightarrow>
    replace_scan (d # r) new (p @ (d # r) @ rest) = p @ new @ replace_scan (d # r) new rest"
proof (induction p)
  case Nil
  show ?case using replace_scan_hit [of "d # r" new rest] by simp
next
  case (Cons c cs)
  have miss: "take (length (d # r)) (c # cs @ (d # r) @ rest) \<noteq> d # r"
    using dotted_no_straddle [OF assms Cons.prems] .
  have "\<not> contains (d # r) cs" using Cons.prems by simp
  then show ?case using Cons.IH replace_scan_miss [OF miss] by simp
qed

lemma replace_scan_join:
  assumes "d \<notin> set r"
  shows "list_all (\<lambda>p. \<not> contains (d # r) p) ps \<Longrightarrow>
    replace_scan (d # r) new (join (d # r) ps) = join new ps"
proof (induction ps rule: induct_list012)
  case 1
  show ?case by simp
next
  case (2 p)
  then show ?case by (simp add: replace_scan_absent)
next
  case (3 p q ps)
  then show ?case using replace_scan_piece [OF assms, of p new "join (d # r) (q # ps)"]
    by simp
qed

lemma rfind_absent: "rfind p c < 0 \<longleftrightarrow> c \<notin> set p"
  by (induction p) (auto simp: Let_def)

lemma rfind_last:
  "0 \<le> rfind p c \<Longrightarrow> \<exists>r. drop (nat (rfind p c)) p = c # r \<and> c \<notin> set r"
proof (induction p)
  case Nil
  then show ?case by simp
next
  case (Cons x xs)
  show ?case
  proof (cases "0 \<le> rfind xs c")
    case True
    then have "nat (rfind (x # xs) c) = Suc (nat (rfind xs c))" by (simp add: Let_def nat_add_distrib)
    with Cons.IH [OF True] show ?thesis by simp
  next
    case False
    then have "c \<notin> set xs" using rfind_absent [of xs c] by simp
    moreover from False Cons.prems have "x = c" "rfind (x # xs) c = 0"
      by (auto simp: Let_def split: if_splits)
    ultimately show ?thesis by simp
  qed
qed

lemma skip_leading_dots_snd:
  "snd (skip_leading_dots p e i d) = [] \<or> snd (skip_leading_dots p e i d) = drop (nat d) p"
  by (induction p e i d rule: skip_leading_dots.induct)
     (subst (1 2) skip_leading_dots.simps, auto)

lemma splitext_shape:
  assumes "snd (splitext p) \<noteq> []"
  shows "\<exists>r. snd (splitext p) = CHR ''.'' # r \<and> CHR ''.'' \<notin> set r"
proof -
  let ?d = "rfind p (CHR ''.'')"
  let ?s = "rfind p (CHR ''/'')"
  have gt: "?d > ?s" and sk: "snd (splitext p) = snd (skip_leading_dots p (CHR ''.'') (?s + 1) ?d)"
    using assms by (auto simp: splitext_def splitext_generic_def Let_def split: if_splits)
  have "?s \<ge> - 1" by (induction p) (auto simp: Let_def)
  with gt have "0 \<le> ?d" by simp
  from sk assms skip_leading_dots_snd [of p "CHR ''.''" "?s + 1" ?d]
  have "snd (splitext p) = drop (nat ?d) p" by auto
  with rfind_last [OF \<open>0 \<le> ?d\<close>] show ?thesis by simp
qed

lemma download_name_join:
  assumes "snd (splitext file_name) \<noteq> []"
    and "file_name = join (snd (splitext file_name)) pieces"
    and "list_all (\<lambda>p. \<not> contains (snd (splitext file_name)) p) pieces"
  shows "download_name file_name new_ext = join new_ext pieces"
proof -
  obtain r where ext: "snd (splitext file_name) = CHR ''.'' # r" and r: "CHR ''.'' \<notin> set r"
    using splitext_shape [OF assms(1)] by blast
  have "replace_scan (CHR ''.'' # r) new_ext (join (CHR ''.'' # r) pieces) = join new_ext pieces"
    using replace_scan_join [OF r] assms(3) ext by simp
  then show ?thesis
    using assms(2) ext by (simp add: download_name_def replace_def)
qed

text \<open>
  Every string splits at the occurrences of a non-empty \<open>old\<close> into pieces free of
  it, so such pieces exist for every file name with an extension.
\<close>

lemma first_occurrence:
  assumes "old \<noteq> []"
  shows "contains old s \<Longrightarrow> \<exists>p rest. s = p @ old @ rest \<and> \<not> contains old p"
proof (induction s)
  case Nil
  then show ?case using assms by simp
next
  case (Cons c cs)
  show ?case
  proof (cases "take (length old) (c # cs) = old")
    case True
    then have "c # cs = [] @ old @ drop (length old) (c # cs)"
      by (metis append_Nil append_take_drop_id)
    moreover have "\<not> contains old []" using assms by simp
    ultimately show ?thesis by blast
  next
    case False
    with Cons.prems have "contains old cs" by simp
    with Cons.IH obtain p rest where pr: "cs = p @ old @ rest" "\<not> contains old p" by blast
    have "take (length old) (c # p) \<noteq> old"
    proof
      assume t: "take (length old) (c # p) = old"
      have "length old \<le> length (c # p)"
        using arg_cong [OF t, of length] by (simp add: min_def split: if_splits)
      then have "take (length old) (c # cs) = take (length old) (c # p)"
        unfolding pr(1) by (simp add: take_Cons')
      with t False show False by simp
    qed
    with pr(2) have "\<not> contains old (c # p)" by simp
    moreover have "c # cs = (c # p) @ old @ rest" using pr(1) by simp
    ultimately show ?thesis by blast
  qed
qed

lemma pieces_exist:
  assumes "old \<noteq> []"
  shows "\<exists>ps. ps \<noteq> [] \<and> s = join old ps \<and> list_all (\<lambda>p. \<not> contains old p) ps"
proof (induction s rule: length_induct)
  case (1 s)
  show ?case
  proof (cases "contains old s")
    case False
    then have "[s] \<noteq> [] \<and> s = join old [s] \<and> list_all (\<lambda>p. \<not> contains old p) [s]"
      by simp
    then show ?thesis by blast
  next
    case True
    from first_occurrence [OF assms True]
    obtain p rest where pr: "s = p @ old @ rest" "\<not> contains old p" by blast
    have "length rest < length s" using pr(1) assms by simp
    with 1 obtain ps where ps: "ps \<noteq> []" "rest = join old ps"
      "list_all (\<lambda>p. \<not> contains old p) ps" by blast
    then obtain q qs where q: "ps = q # qs" by (cases ps) auto
    have "s = join old (p # ps)" using pr(1) ps(2) q by simp
    moreover have "list_all (\<lambda>p. \<not> contains old p) (p # ps)" using pr(2) ps(3) by simp
    ultimately show ?thesis by blast
  qed
qed

lemma file_name_pieces_exist:
  "snd (splitext file_name) \<noteq> [] \<Longrightarrow>
   \<exists>pieces. file_name = join (snd (splitext file_name)) pieces
     \<and> list_all (\<lambda>p. \<not> contains (snd (splitext file_name)) p) pieces"
  using pieces_exist [of "snd (splitext file_name)" file_name] by blast

subsection \<open>The download name\<close>

lemma download_name_example: "download_name ''a.csv.csv'' ''.xlsx'' = ''a.xlsx.xlsx''"
  by code_simp

lemma spec_replace_first_example:
  "spec_replace_first ''a.csv.csv'' (snd (splitext ''a.csv.csv'')) ''.xlsx'' = ''a.xlsx.csv''"
  by code_simp

text \<open>
  C3: line 146 means to swap the extension of the file name, but \<^verbatim>\<open>str.replace\<close>
  without a count replaces every occurrence of the extension substring. For
  \<^verbatim>\<open>a.csv.csv\<close> exported to Excel \<^verbatim>\<open>convert_file\<close> offers \<^verbatim>\<open>a.xlsx.xlsx\<close>;
  replacing only the first occurrence, as the claim has it, gives \<^verbatim>\<open>a.xlsx.csv\<close>.
\<close>

theorem download_name_recurring_extension:
  "convert_file (toy_page False False id) \<lparr>columns = [(''h'', Float64)], rows = [[Num 1]]\<rparr>
      ''a.csv.csv'' ''Excel''
     = [Download_button ''Download a.xlsx.xlsx'' ''h'' ''a.xlsx.xlsx''
          ''application/vnd.openxmlformats-officedocument.spreadsheetml.sheet'']
   \<and> spec_replace_first ''a.csv.csv'' (snd (splitext ''a.csv.csv'')) ''.xlsx'' = ''a.xlsx.csv''"
  by (simp add: convert_file_def download_name_example spec_replace_first_example
      toy_page_def toy_write_def labels_def)

text \<open>
  What \<^verbatim>\<open>convert_file\<close> does with a name that has an extension: when the name is
  cut at the occurrences of that extension into pieces that do not contain it, the
  download name is the pieces joined by the new extension.
\<close>

lemma convert_file_replaces_every_occurrence:
  assumes "snd (splitext file_name) \<noteq> []"
    and "file_name = join (snd (splitext file_name)) pieces"
    and "list_all (\<lambda>p. \<not> contains (snd (splitext file_name)) p) pieces"
    and "(if target_format = ''CSV'' then to_csv e df else to_excel e df) = Inr buffer"
  shows "convert_file e df file_name target_format =
           [Download_button
              (''Download '' @ join (if target_format = ''CSV'' then ''.csv'' else ''.xlsx'') pieces)
              buffer
              (join (if target_format = ''CSV'' then ''.csv'' else ''.xlsx'') pieces)
              (if target_format = ''CSV'' then ''text/csv''
               else ''application/vnd.openxmlformats-officedocument.spreadsheetml.sheet'')]"
  using assms(4) download_name_join [OF assms(1-3)]
  by (simp add: convert_file_def split: if_splits)

lemma splitext_data: "snd (splitext ''data'') = []"
  by code_simp

lemma download_name_data: "download_name ''data'' ''.csv'' = ''.csvd.csva.csvt.csva.csv''"
  by code_simp

text \<open>
  C10: when \<^verbatim>\<open>os.path.splitext\<close> finds no extension, the empty string is what
  \<^verbatim>\<open>str.replace\<close> looks for, and the new extension is put before every character
  of the name and after the last; a file named \<^verbatim>\<open>data\<close> exported to CSV is offered
  as \<^verbatim>\<open>.csvd.csva.csvt.csva.csv\<close>.
\<close>

theorem download_name_without_extension:
  "(snd (splitext file_name) = [] \<longrightarrow>
      download_name file_name new_ext = new_ext @ concat (map (\<lambda>c. c # new_ext) file_name))
   \<and> (to_csv e df = Inr buffer \<longrightarrow>
        convert_file e df ''data'' ''CSV'' =
          [Download_button ''Download .csvd.csva.csvt.csva.csv'' buffer
             ''.csvd.csva.csvt.csva.csv'' ''text/csv''])"
  by (simp add: download_name_def replace_def convert_file_def download_name_data [unfolded download_name_def replace_def])

theorem download_name_without_extension_witness:
  "snd (splitext ''data'') = []
   \<and> download_name ''data'' ''.csv'' = ''.csv'' @ concat (map (\<lambda>c. c # ''.csv'') ''data'')
   \<and> convert_file (toy_page False False id) \<lparr>columns = [(''h'', Float64)], rows = [[Num 1]]\<rparr>
         ''data'' ''CSV''
       = [Download_button ''Download .csvd.csva.csvt.csva.csv'' ''h''
            ''.csvd.csva.csvt.csva.csv'' ''text/csv'']"
  using download_name_without_extension
    [of "''data''" "''.csv''" "toy_page False False id"
        "\<lparr>columns = [(''h'', Float64)], rows = [[Num 1]]\<rparr>" "''h''"]
  by (simp add: splitext_data toy_page_def toy_write_def labels_def)

subsection \<open>Loading\<close>

lemma lower_ext_report: "lower (snd (splitext ''report.txt'')) = ''.txt''"
  by code_simp

text \<open>
  C7: a file whose lower-cased extension is neither \<^verbatim>\<open>.csv\<close> nor \<^verbatim>\<open>.xlsx\<close> is
  not loaded: \<^verbatim>\<open>load_data\<close> returns no table and reports the unsupported type
  with the lower-cased extension; for \<^verbatim>\<open>report.txt\<close> the report carries
  \<^verbatim>\<open>.txt\<close>.
\<close>

theorem load_data_unsupported_format:
  "(lower (snd (splitext (name file))) \<noteq> ''.csv''
      \<and> lower (snd (splitext (name file))) \<noteq> ''.xlsx'' \<longrightarrow>
      load_data e file =
        (None, [Error (''Unsupported file type: '' @ lower (snd (splitext (name file))))]))
   \<and> (name file = ''report.txt'' \<longrightarrow>
        load_data e file = (None, [Error ''Unsupported file type: .txt'']))"
  by (simp add: load_data_def Let_def lower_ext_report)

theorem load_data_unsupported_format_witness:
  "lower (snd (splitext ''report.txt'')) \<noteq> ''.csv''
   \<and> lower (snd (splitext ''report.txt'')) \<noteq> ''.xlsx''
   \<and> load_data (toy_page False False id) \<lparr>name = ''report.txt'', content = ''h1'', fsize = 2\<rparr>
       = (None, [Error ''Unsupported file type: .txt''])"
  using load_data_unsupported_format
    [of "\<lparr>name = ''report.txt'', content = ''h1'', fsize = 2\<rparr>" "toy_page False False id"]
  by (simp add: lower_ext_report)

subsection \<open>Removing duplicate rows\<close>

lemma set_keep_first: "set (keep_first seen xs) = set xs - set seen"
  by (induction xs arbitrary: seen) auto

lemma keys_keep_first_by:
  "key ` set (keep_first_by key seen xs) = key ` set xs - set seen"
  by (induction xs arbitrary: seen) auto

lemma set_keep_first_by: "set (keep_first_by key seen xs) \<subseteq> set xs"
  by (induction xs arbitrary: seen) auto

lemma distinct_keep_first_by: "distinct (map key (keep_first_by key seen xs))"
proof (induction xs arbitrary: seen)
  case Nil
  show ?case by simp
next
  case (Cons x xs)
  have "key x \<notin> key ` set (keep_first_by key (key x # seen) xs)"
    by (simp add: keys_keep_first_by)
  with Cons show ?case by simp
qed

lemma keep_first_by_distinct:
  "distinct (map key xs) \<Longrightarrow> key ` set xs \<inter> set seen = {} \<Longrightarrow> keep_first_by key seen xs = xs"
  by (induction xs arbitrary: seen) auto

lemma keep_first_by_idem:
  "keep_first_by key [] (keep_first_by key [] xs) = keep_first_by key [] xs"
  by (simp add: keep_first_by_distinct distinct_keep_first_by)







lemma rows_fillna_mean: "length (rows (fillna_mean e df)) = length (rows df)"
  by (simp add: fillna_mean_def)




lemma clean_once_example:
  "clean_data (toy_page True True id)
      \<lparr>columns = [(''h'', Float64)], rows = [[Missing], [Num 5]]\<rparr> ''f.csv''
    = (\<lparr>columns = [(''h'', Float64)], rows = [[Num 5], [Num 5]]\<rparr>,
       [Sidebar_removed 0, Sidebar_filled])"
  by code_simp

lemma clean_twice_example:
  "clean_data (toy_page True True id)
      \<lparr>columns = [(''h'', Float64)], rows = [[Num 5], [Num 5]]\<rparr> ''f.csv''
    = (\<lparr>columns = [(''h'', Float64)], rows = [[Num 5]]\<rparr>,
       [Sidebar_removed 1, Sidebar_filled])"
  by code_simp

text \<open>
  C9, as stated for every run with the remove-duplicates box ticked, fails when the
  fill box is ticked as well: the column [missing, 5] has no duplicate, is filled to
  [5, 5], and a second run removes one row.
\<close>

theorem clean_data_twice_counterexample:
  "fst (clean_data (toy_page True True id)
          (fst (clean_data (toy_page True True id)
                  \<lparr>columns = [(''h'', Float64)], rows = [[Missing], [Num 5]]\<rparr> ''f.csv''))
          ''f.csv'')
     \<noteq> fst (clean_data (toy_page True True id)
              \<lparr>columns = [(''h'', Float64)], rows = [[Missing], [Num 5]]\<rparr> ''f.csv'')
   \<and> hd (snd (clean_data (toy_page True True id)
          (fst (clean_data (toy_page True True id)
                  \<lparr>columns = [(''h'', Float64)], rows = [[Missing], [Num 5]]\<rparr> ''f.csv''))
          ''f.csv'')) = Sidebar_removed 1"
  by (simp add: clean_once_example clean_twice_example)

text \<open>
  C9, amended: with the remove-duplicates box ticked and the fill box not ticked, a
  second run of \<^verbatim>\<open>clean_data\<close> returns the table of the first run and reports
  zero removed rows.
\<close>

theorem clean_data_dedup_idempotent:
  assumes "sidebar_checkbox e (''Remove duplicates in '' @ file_name)"
    and "\<not> sidebar_checkbox e (''Fill missing values in '' @ file_name)"
  shows "clean_data e (fst (clean_data e df file_name)) file_name =
           (fst (clean_data e df file_name), [Sidebar_removed 0])"
  using assms
  by (simp add: clean_data_def Let_def drop_duplicates_def keep_first_by_idem)

theorem clean_data_dedup_idempotent_witness:
  "sidebar_checkbox (toy_page True False id) (''Remove duplicates in '' @ ''f.csv'')
   \<and> \<not> sidebar_checkbox (toy_page True False id) (''Fill missing values in '' @ ''f.csv'')
   \<and> clean_data (toy_page True False id)
        (fst (clean_data (toy_page True False id)
                \<lparr>columns = [(''h'', Float64)], rows = [[Missing], [Num 5], [Num 5]]\<rparr> ''f.csv''))
        ''f.csv''
       = (\<lparr>columns = [(''h'', Float64)], rows = [[Missing], [Num 5]]\<rparr>, [Sidebar_removed 0])"
  using clean_data_dedup_idempotent
    [of "toy_page True False id" "''f.csv''"
        "\<lparr>columns = [(''h'', Float64)], rows = [[Missing], [Num 5], [Num 5]]\<rparr>"]
  by (simp add: toy_page_def clean_data_def Let_def drop_duplicates_def row_key_def)

subsection \<open>float64 arithmetic on whole numbers\<close>

lemma pow2_nonpos: "k \<le> 0 \<Longrightarrow> pow2 k = 1 / 2 ^ nat (- k)"
  by (cases "k = 0") (simp_all add: pow2_def)

lemma bitlen_one: "bitlen 1 = 1"
  by (simp add: bitlen_alt_def)

lemma floor_log2_int:
  assumes "0 < n"
  shows "floor_log2 (of_int n) = bitlen n - 1"
proof -
  have pos: "0 \<le> bitlen n - 1" using assms by (simp add: bitlen_alt_def)
  have "(2::int) ^ nat (bitlen n - 1) \<le> n" using bitlen_bounds [OF assms] by simp
  then have "(of_int ((2::int) ^ nat (bitlen n - 1)) :: rat) \<le> of_int n"
    by (simp only: of_int_le_iff)
  then have "pow2 (bitlen n - 1) \<le> of_int n" using pos by (simp add: pow2_def)
  then show ?thesis by (simp add: floor_log2_def bitlen_one)
qed

lemma bitlen_small:
  assumes "0 < n" "n < 2 ^ 53"
  shows "bitlen n \<le> 53"
proof -
  have "(2::int) ^ nat (bitlen n - 1) \<le> n" using bitlen_bounds [OF assms(1)] by simp
  with assms(2) have "(2::int) ^ nat (bitlen n - 1) < 2 ^ 53" by simp
  then have "nat (bitlen n - 1) < 53" by (simp only: power_strict_increasing_iff)
  then show ?thesis by simp
qed

lemma round_half_even_int: "round_half_even (of_int m) = m"
  by (simp add: round_half_even_def)

lemma round64_pos_int:
  assumes "0 < n" "n < 2 ^ 53"
  shows "round64 (of_int n) = Num (of_int n)" and "round64 (- of_int n) = Num (- of_int n)"
proof -
  let ?e = "bitlen n - 1"
  have e0: "0 \<le> ?e" using assms(1) by (simp add: bitlen_alt_def)
  have e52: "?e \<le> 52" using bitlen_small [OF assms] by simp
  have ulp: "pow2 (max ?e (- 1022) - 52) = 1 / 2 ^ nat (52 - ?e)"
    using e0 e52 pow2_nonpos [of "?e - 52"] by (simp add: max_def)
  have q: "(of_int n :: rat) / (1 / 2 ^ nat (52 - ?e)) = of_int (n * 2 ^ nat (52 - ?e))"
    by simp
  have y: "of_int (round_half_even ((of_int n :: rat) / (1 / 2 ^ nat (52 - ?e))))
             * (1 / 2 ^ nat (52 - ?e)) = (of_int n :: rat)"
    unfolding q round_half_even_int by simp
  have a: "\<bar>of_int n :: rat\<bar> = of_int n" "\<bar>- of_int n :: rat\<bar> = of_int n"
    using assms(1) by simp_all
  have nz: "(of_int n :: rat) \<noteq> 0" "(of_int n :: rat) > 0" using assms(1) by simp_all
  show "round64 (of_int n) = Num (of_int n)"
    unfolding round64_def a Let_def floor_log2_int [OF assms(1)] ulp y
    using e52 nz by simp
  show "round64 (- of_int n) = Num (- of_int n)"
    unfolding round64_def a Let_def floor_log2_int [OF assms(1)] ulp y
    using e52 nz by simp
qed

lemma round64_int:
  assumes "\<bar>n\<bar> < 2 ^ 53"
  shows "round64 (of_int n) = Num (of_int n)"
proof -
  consider "n = 0" | "0 < n" | "n < 0" by linarith
  then show ?thesis
  proof cases
    case 1
    then show ?thesis by (simp add: round64_def)
  next
    case 2
    then show ?thesis using round64_pos_int(1) [of n] assms by simp
  next
    case 3
    then have "0 < - n" "- n < 2 ^ 53" using assms by simp_all
    from round64_pos_int(2) [OF this] show ?thesis by simp
  qed
qed


text \<open>
  Beyond whole numbers: a sum from \<open>2 ^ 1024\<close> on overflows to the infinity, and
  \<^verbatim>\<open>0.1 + 0.2\<close> is \<^verbatim>\<open>0.30000000000000004\<close>.
\<close>

lemma bitlen_large:
  assumes "2 ^ 1024 \<le> n"
  shows "1024 < bitlen n"
proof -
  have pos: "0 < n" using assms by (smt (verit) zero_less_power)
  have "n < 2 ^ nat (bitlen n)" using bitlen_bounds [OF pos] by simp
  with assms have "(2::int) ^ 1024 < 2 ^ nat (bitlen n)" by linarith
  then have "1024 < nat (bitlen n)" by (simp only: power_strict_increasing_iff)
  then show ?thesis by simp
qed

lemma round64_overflow:
  assumes "2 ^ 1024 \<le> n"
  shows "round64 (of_int n) = PosInf"
proof -
  have pos: "0 < n" using assms by (smt (verit) zero_less_power)
  have "1023 < floor_log2 (of_int n)"
    using bitlen_large [OF assms] by (simp add: floor_log2_int [OF pos])
  then show ?thesis using pos by (simp add: round64_def Let_def)
qed

lemma fadd_overflow_example: "fadd (Num (10 ^ 308)) (Num (10 ^ 308)) = PosInf"
proof -
  have "(2::int) ^ 1024 \<le> 10 ^ 308 + 10 ^ 308" by simp
  from round64_overflow [OF this] show ?thesis by simp
qed

lemma fadd_rounding_example:
  "fadd (Num (3602879701896397 / 36028797018963968)) (Num (3602879701896397 / 18014398509481984))
     = Num (1351079888211149 / 4503599627370496)"
  by code_simp

subsection \<open>Sums in some order\<close>

lemma adds_up_foldl: "adds_up ys a \<Longrightarrow> adds_up (ys @ xs) (foldl fadd a xs)"
proof (induction xs arbitrary: ys a)
  case Nil
  then show ?case by simp
next
  case (Cons x xs)
  have "adds_up (ys @ [x]) (fadd a x)"
    using Cons.prems adds_up.single [of x] by (rule adds_up.plus) simp
  from Cons.IH [OF this] show ?case by simp
qed

lemma adds_up_seq_sum: "xs \<noteq> [] \<Longrightarrow> adds_up xs (seq_sum xs)"
proof (cases xs)
  case Nil
  assume "xs \<noteq> []"
  with Nil show ?thesis by simp
next
  case (Cons x rest)
  show ?thesis
    using adds_up_foldl [OF adds_up.single, of x rest] Cons by simp
qed

lemma ieee_sum_toy_page: "ieee_sum (toy_page dedup fill pick)"
  by (simp add: ieee_sum_def toy_page_def adds_up_seq_sum)

lemma abs_le_sum_list_abs: "n \<in> set ns \<Longrightarrow> \<bar>n\<bar> \<le> (\<Sum>m\<leftarrow>ns. \<bar>m :: int\<bar>)"
proof (induction ns)
  case Nil
  then show ?case by simp
next
  case (Cons m ns)
  have "0 \<le> (\<Sum>m\<leftarrow>ns. \<bar>m\<bar>)" by (rule sum_list_nonneg) auto
  with Cons show ?case by auto
qed

lemma adds_up_ints:
  "adds_up zs s \<Longrightarrow> mset zs = mset (map (\<lambda>n. Num (of_int n)) ns) \<Longrightarrow>
   (\<Sum>n\<leftarrow>ns. \<bar>n\<bar>) < 2 ^ 53 \<Longrightarrow> s = Num (of_int (sum_list ns))"
proof (induction zs s arbitrary: ns rule: adds_up.induct)
  case (single x)
  from single(1) have "length ns = 1"
    using mset_eq_length [OF single(1)] by simp
  then obtain n where n: "ns = [n]" by (cases ns) auto
  with single(1) show ?case by simp
next
  case (plus xs a ys b zs)
  let ?f = "\<lambda>n::int. Num (of_int n)"
  have "image_mset ?f (mset ns) = mset xs + mset ys"
    using plus.prems(1) plus.hyps(3) by simp
  then obtain B C where BC: "mset ns = B + C" "mset xs = image_mset ?f B"
    "mset ys = image_mset ?f C"
    using image_mset_eq_plusD by metis
  obtain ns1 ns2 where ns12: "mset ns1 = B" "mset ns2 = C"
    using ex_mset by metis
  have ab: "(\<Sum>n\<leftarrow>ns. \<bar>n\<bar>) = (\<Sum>n\<leftarrow>ns1. \<bar>n\<bar>) + (\<Sum>n\<leftarrow>ns2. \<bar>n\<bar>)"
  proof -
    have "mset (map abs ns) = mset (map abs ns1) + mset (map abs ns2)"
      using BC(1) ns12 by simp
    then have "sum_mset (mset (map abs ns))
        = sum_mset (mset (map abs ns1)) + sum_mset (mset (map abs ns2))" by simp
    then show ?thesis by (simp only: sum_mset_sum_list)
  qed
  have su: "sum_list ns = sum_list ns1 + sum_list ns2"
  proof -
    have "sum_mset (mset ns) = sum_mset (mset ns1) + sum_mset (mset ns2)"
      using BC(1) ns12 by simp
    then show ?thesis by (simp only: sum_mset_sum_list)
  qed
  have n1: "0 \<le> (\<Sum>n\<leftarrow>ns1. \<bar>n\<bar>)" and n2: "0 \<le> (\<Sum>n\<leftarrow>ns2. \<bar>n\<bar>)"
    by (rule sum_list_nonneg, auto)+
  have a: "a = Num (of_int (sum_list ns1))"
    using plus.IH(1) [of ns1] BC(2) ns12 ab n2 plus.prems(2) by simp
  have b: "b = Num (of_int (sum_list ns2))"
    using plus.IH(2) [of ns2] BC(3) ns12 ab n1 plus.prems(2) by simp
  have "\<bar>sum_list ns1 + sum_list ns2\<bar> \<le> (\<Sum>n\<leftarrow>ns1. \<bar>n\<bar>) + (\<Sum>n\<leftarrow>ns2. \<bar>n\<bar>)"
    using sum_list_abs [of ns1] sum_list_abs [of ns2] by linarith
  then have "\<bar>sum_list ns\<bar> < 2 ^ 53" using su ab plus.prems(2) by linarith
  from round64_int [OF this] show ?case
    unfolding a b su by simp
qed

subsection \<open>The mean of a column\<close>

lemma mean_all_missing: "present col = [] \<Longrightarrow> mean e col = Missing"
  by (simp add: mean_def)

lemma mean_adds_up:
  assumes "ieee_sum e" "present col \<noteq> []"
  shows "\<exists>s. adds_up (map to_float64 (present col)) s
           \<and> mean e col = fdiv s (length (present col))"
proof -
  have "adds_up (map to_float64 (present col)) (np_sum e (map to_float64 (present col)))"
    using assms by (simp add: ieee_sum_def)
  moreover have "mean e col
      = fdiv (np_sum e (map to_float64 (present col))) (length (present col))"
    using assms(2) by (simp add: mean_def Let_def)
  ultimately show ?thesis by blast
qed

lemma mean_whole_numbers:
  assumes "ieee_sum e" "present col = map (\<lambda>n. Num (of_int n)) ns" "ns \<noteq> []"
    "(\<Sum>n\<leftarrow>ns. \<bar>n\<bar>) < 2 ^ 53"
  shows "mean e col = round64 (of_int (sum_list ns) / of_nat (length ns))"
proof -
  let ?f = "\<lambda>n::int. Num (of_int n)"
  have "to_float64 (?f n) = ?f n" if "n \<in> set ns" for n
    using abs_le_sum_list_abs [OF that] assms(4) round64_int [of n] by simp
  then have vals: "map to_float64 (present col) = map ?f ns"
    unfolding assms(2) by (simp add: comp_def)
  have "adds_up (map ?f ns) (np_sum e (map ?f ns))"
    using assms(1,3) by (simp add: ieee_sum_def)
  from adds_up_ints [OF this refl assms(4)]
  have "np_sum e (map ?f ns) = Num (of_int (sum_list ns))" .
  then show ?thesis
    using assms(3) by (simp add: mean_def Let_def vals)
qed

subsection \<open>Filling\<close>

lemma wf_table_rows: "wf_table df \<Longrightarrow> r \<in> set (rows df) \<Longrightarrow> length r = length (columns df)"
  by (simp add: wf_table_def list_all_iff)

lemma wf_drop_duplicates: "wf_table df \<Longrightarrow> wf_table (drop_duplicates df)"
  using set_keep_first_by [of row_key "[]" "rows df"]
  by (auto simp: wf_table_def drop_duplicates_def list_all_iff)

lemma wf_before_fill: "wf_table df \<Longrightarrow> wf_table (before_fill e df file_name)"
  by (simp add: before_fill_def wf_drop_duplicates)

lemma columns_before_fill: "columns (before_fill e df file_name) = columns df"
  by (simp add: before_fill_def drop_duplicates_def)

lemma wf_fillna_mean: "wf_table df \<Longrightarrow> wf_table (fillna_mean e df)"
  by (simp add: wf_table_def fillna_mean_def list_all_iff)

lemma clean_data_fill:
  "sidebar_checkbox e (''Fill missing values in '' @ file_name) \<Longrightarrow>
   fst (clean_data e df file_name) = fillna_mean e (before_fill e df file_name)"
  by (simp add: clean_data_def before_fill_def Let_def)

lemma column_values_nth:
  assumes "wf_table df" "j < length (columns df)"
  shows "column_values df j = map (\<lambda>r. r ! j) (rows df)"
  unfolding column_values_def
  using assms wf_table_rows [OF assms(1)] by (intro map_cong refl) (simp add: cell_at_def)

lemma fillna_mean_cell:
  assumes "wf_table df" "i < length (rows df)" "j < length (columns df)"
  shows "rows (fillna_mean e df) ! i ! j =
     (if is_number (snd (columns df ! j)) \<and> rows df ! i ! j = Missing
      then mean e (map (\<lambda>r. r ! j) (rows df))
      else rows df ! i ! j)"
proof -
  have len: "length (rows df ! i) = length (columns df)"
    using assms(1,2) by (simp add: wf_table_rows)
  then have "rows (fillna_mean e df) ! i ! j = fillna (fill_value e df j) (rows df ! i ! j)"
    using assms(2,3) by (simp add: fillna_mean_def)
  then show ?thesis
    using assms(3) column_values_nth [OF assms(1,3)]
    by (simp add: fillna_def fill_value_def)
qed

lemma round64_20: "round64 20 = Num 20"
  using round64_int [of 20] by simp

lemma fill_example:
  assumes "is_number d" "ieee_sum e"
  shows "rows (fillna_mean e \<lparr>columns = [(c, d)],
                             rows = [[Num 10], [Num 20], [Num 30], [Missing]]\<rparr>)
           = [[Num 10], [Num 20], [Num 30], [Num 20]]"
proof -
  have "present [Num 10, Num 20, Num 30, Missing] = map (\<lambda>n. Num (of_int n)) [10, 20, 30]"
    by (simp add: present_def)
  from mean_whole_numbers [OF assms(2) this]
  have "mean e [Num 10, Num 20, Num 30, Missing] = Num 20"
    by (simp add: round64_20)
  then show ?thesis
    using assms(1)
    by (simp add: fillna_mean_def fill_value_def column_values_def cell_at_def fillna_def)
qed

lemma fill_after_dedup_example:
  "clean_data (toy_page True True id)
     \<lparr>columns = [(''h'', Float64)], rows = [[Num 5], [Num 5], [Missing], [Num 11]]\<rparr> ''f.csv''
   = (\<lparr>columns = [(''h'', Float64)], rows = [[Num 5], [Num 8], [Num 11]]\<rparr>,
      [Sidebar_removed 1, Sidebar_filled])"
  by code_simp

lemma spec_column_mean_example:
  "spec_column_mean [Num 5, Num 5, Missing, Num 11] = 7"
  by (simp add: spec_column_mean_def Let_def)

lemma fill_rounded_example:
  "clean_data (toy_page False True id)
     \<lparr>columns = [(''h'', Float64)],
      rows = [[Num (3602879701896397 / 36028797018963968)],
              [Num (3602879701896397 / 18014398509481984)], [Missing]]\<rparr> ''f.csv''
   = (\<lparr>columns = [(''h'', Float64)],
       rows = [[Num (3602879701896397 / 36028797018963968)],
               [Num (3602879701896397 / 18014398509481984)],
               [Num (1351079888211149 / 9007199254740992)]]\<rparr>,
      [Sidebar_filled])"
  by code_simp

lemma spec_column_mean_rounded_example:
  "spec_column_mean
      [Num (3602879701896397 / 36028797018963968),
       Num (3602879701896397 / 18014398509481984), Missing]
     = 10808639105689191 / 72057594037927936"
  by (simp add: spec_column_mean_def Let_def)

text \<open>
  C1, as stated for the columns of the table handed to \<^verbatim>\<open>clean_data\<close> and for the
  arithmetic mean, fails twice. When the remove-duplicates box is ticked too, the rows
  are deduplicated before the mean is taken: the column 5, 5, missing, 11 is filled
  with 8, the mean of 5 and 11, while the mean of its non-missing values 5, 5, 11 is 7.
  And the mean is a float64 computation: the column \<^verbatim>\<open>0.1\<close>, \<^verbatim>\<open>0.2\<close>, missing (the
  two float64 values) is filled with \<^verbatim>\<open>0.15000000000000002\<close>, one unit in the last
  place above the arithmetic mean of the two values.
\<close>

theorem clean_data_fill_counterexample:
  "fst (clean_data (toy_page True True id)
          \<lparr>columns = [(''h'', Float64)], rows = [[Num 5], [Num 5], [Missing], [Num 11]]\<rparr>
          ''f.csv'')
     = \<lparr>columns = [(''h'', Float64)], rows = [[Num 5], [Num 8], [Num 11]]\<rparr>
   \<and> spec_column_mean [Num 5, Num 5, Missing, Num 11] = 7
   \<and> fst (clean_data (toy_page False True id)
          \<lparr>columns = [(''h'', Float64)],
           rows = [[Num (3602879701896397 / 36028797018963968)],
                   [Num (3602879701896397 / 18014398509481984)], [Missing]]\<rparr> ''f.csv'')
     = \<lparr>columns = [(''h'', Float64)],
         rows = [[Num (3602879701896397 / 36028797018963968)],
                 [Num (3602879701896397 / 18014398509481984)],
                 [Num (10808639105689192 / 72057594037927936)]]\<rparr>
   \<and> spec_column_mean
          [Num (3602879701896397 / 36028797018963968),
           Num (3602879701896397 / 18014398509481984), Missing]
       = 10808639105689191 / 72057594037927936"
  using fill_after_dedup_example spec_column_mean_example
    fill_rounded_example spec_column_mean_rounded_example by simp

text \<open>
  C1, amended: with the fill box ticked, every missing cell of a numeric column becomes
  the float64 mean of the non-missing cells of that column, taken on the table that
  reaches the fill step (the input, or its deduplicated rows when that box is ticked
  too), so the same value in every row; every other cell stays as it is. The mean of a
  column without a non-missing cell is NaN and leaves the column unchanged, without an
  error; otherwise it is a float64 sum of the values divided by their count, which for
  whole numbers of total magnitude below \<open>2 ^ 53\<close> is the arithmetic mean rounded to
  float64. A numeric column 10, 20, 30, missing becomes 10, 20, 30, 20.
\<close>

theorem clean_data_fills_with_column_mean:
  assumes "sidebar_checkbox e (''Fill missing values in '' @ file_name)"
    and "wf_table df"
    and "ieee_sum e"
  shows "wf_table (fst (clean_data e df file_name))
     \<and> columns (fst (clean_data e df file_name)) = columns df
     \<and> length (rows (fst (clean_data e df file_name)))
         = length (rows (before_fill e df file_name))
     \<and> (\<forall>i<length (rows (before_fill e df file_name)). \<forall>j<length (columns df).
          rows (fst (clean_data e df file_name)) ! i ! j =
            (if is_number (snd (columns df ! j))
                \<and> rows (before_fill e df file_name) ! i ! j = Missing
             then mean e (map (\<lambda>r. r ! j) (rows (before_fill e df file_name)))
             else rows (before_fill e df file_name) ! i ! j))
     \<and> (\<forall>col. (present col = [] \<longrightarrow> mean e col = Missing)
            \<and> (present col \<noteq> [] \<longrightarrow>
                 (\<exists>s. adds_up (map to_float64 (present col)) s
                      \<and> mean e col = fdiv s (length (present col))))
            \<and> (\<forall>ns. present col = map (\<lambda>n. Num (of_int n)) ns \<and> ns \<noteq> []
                     \<and> (\<Sum>n\<leftarrow>ns. \<bar>n\<bar>) < 2 ^ 53 \<longrightarrow>
                   mean e col = round64 (of_int (sum_list ns) / of_nat (length ns))))
     \<and> (is_number d \<and> columns df = [(c, d)]
          \<and> rows df = [[Num 10], [Num 20], [Num 30], [Missing]] \<longrightarrow>
        rows (fst (clean_data e df file_name)) = [[Num 10], [Num 20], [Num 30], [Num 20]])"
proof -
  let ?T = "before_fill e df file_name"
  have res: "fst (clean_data e df file_name) = fillna_mean e ?T"
    using assms(1) by (rule clean_data_fill)
  have wf: "wf_table ?T" using assms(2) by (rule wf_before_fill)
  have cols: "columns ?T = columns df" by (rule columns_before_fill)
  have c1: "wf_table (fst (clean_data e df file_name))"
    unfolding res using wf by (rule wf_fillna_mean)
  have c2: "columns (fst (clean_data e df file_name)) = columns df"
    unfolding res by (simp add: fillna_mean_def cols)
  have c3: "length (rows (fst (clean_data e df file_name))) = length (rows ?T)"
    unfolding res by (rule rows_fillna_mean)
  have c4: "\<forall>i<length (rows ?T). \<forall>j<length (columns df).
          rows (fst (clean_data e df file_name)) ! i ! j =
            (if is_number (snd (columns df ! j)) \<and> rows ?T ! i ! j = Missing
             then mean e (map (\<lambda>r. r ! j) (rows ?T))
             else rows ?T ! i ! j)"
    unfolding res using fillna_mean_cell [OF wf] cols by simp
  have c5: "(present col = [] \<longrightarrow> mean e col = Missing)
            \<and> (present col \<noteq> [] \<longrightarrow>
                 (\<exists>s. adds_up (map to_float64 (present col)) s
                      \<and> mean e col = fdiv s (length (present col))))
            \<and> (\<forall>ns. present col = map (\<lambda>n. Num (of_int n)) ns \<and> ns \<noteq> []
                     \<and> (\<Sum>n\<leftarrow>ns. \<bar>n\<bar>) < 2 ^ 53 \<longrightarrow>
                   mean e col = round64 (of_int (sum_list ns) / of_nat (length ns)))" for col
    using mean_all_missing [of col e] mean_adds_up [OF assms(3), of col]
      mean_whole_numbers [OF assms(3), of col] by blast
  have c6: "rows (fst (clean_data e df file_name)) = [[Num 10], [Num 20], [Num 30], [Num 20]]"
    if "is_number d" "columns df = [(c, d)]"
      "rows df = [[Num 10], [Num 20], [Num 30], [Missing]]"
  proof -
    have "df = \<lparr>columns = [(c, d)], rows = [[Num 10], [Num 20], [Num 30], [Missing]]\<rparr>"
      using that(2,3) by simp
    moreover have "?T = df"
      using that(3) by (simp add: before_fill_def drop_duplicates_def row_key_def)
    ultimately show ?thesis
      unfolding res using fill_example [OF that(1) assms(3)] by simp
  qed
  from c1 c2 c3 c4 c5 c6 show ?thesis by blast
qed

lemma fill_both_boxes_example:
  "clean_data (toy_page True True id)
     \<lparr>columns = [(''g'', Object), (''h'', Float64)],
      rows = [[Num 1, Num 5], [Flag True, Num 5], [Str ''x'', Missing], [Num 1, Num 11],
              [Str ''y'', Missing]]\<rparr> ''f.xlsx''
   = (\<lparr>columns = [(''g'', Object), (''h'', Float64)],
       rows = [[Num 1, Num 5], [Str ''x'', Num 8], [Num 1, Num 11], [Str ''y'', Num 8]]\<rparr>,
      [Sidebar_removed 1, Sidebar_filled])"
  by code_simp

theorem clean_data_fills_with_column_mean_witness:
  "sidebar_checkbox (toy_page True True id) (''Fill missing values in '' @ ''f.xlsx'')
   \<and> wf_table \<lparr>columns = [(''g'', Object), (''h'', Float64)],
       rows = [[Num 1, Num 5], [Flag True, Num 5], [Str ''x'', Missing], [Num 1, Num 11],
               [Str ''y'', Missing]]\<rparr>
   \<and> ieee_sum (toy_page True True id)
   \<and> rows (before_fill (toy_page True True id)
       \<lparr>columns = [(''g'', Object), (''h'', Float64)],
        rows = [[Num 1, Num 5], [Flag True, Num 5], [Str ''x'', Missing], [Num 1, Num 11],
                [Str ''y'', Missing]]\<rparr> ''f.xlsx'')
       = [[Num 1, Num 5], [Str ''x'', Missing], [Num 1, Num 11], [Str ''y'', Missing]]
   \<and> mean (toy_page True True id) [Num 5, Missing, Num 11, Missing] = Num 8
   \<and> rows (fst (clean_data (toy_page True True id)
       \<lparr>columns = [(''g'', Object), (''h'', Float64)],
        rows = [[Num 1, Num 5], [Flag True, Num 5], [Str ''x'', Missing], [Num 1, Num 11],
                [Str ''y'', Missing]]\<rparr> ''f.xlsx''))
       = [[Num 1, Num 5], [Str ''x'', Num 8], [Num 1, Num 11], [Str ''y'', Num 8]]"
proof -
  let ?P = "toy_page True True id"
  let ?T = "\<lparr>columns = [(''g'', Object), (''h'', Float64)],
        rows = [[Num 1, Num 5], [Flag True, Num 5], [Str ''x'', Missing], [Num 1, Num 11],
                [Str ''y'', Missing]]\<rparr>"
  have h1: "sidebar_checkbox ?P (''Fill missing values in '' @ ''f.xlsx'')"
    by (simp add: toy_page_def)
  have h2: "wf_table ?T" by (simp add: wf_table_def)
  have h3: "ieee_sum ?P" by (rule ieee_sum_toy_page)
  have bf: "rows (before_fill ?P ?T ''f.xlsx'')
      = [[Num 1, Num 5], [Str ''x'', Missing], [Num 1, Num 11], [Str ''y'', Missing]]"
    by (simp add: before_fill_def toy_page_def drop_duplicates_def row_key_def)
  note inst = clean_data_fills_with_column_mean [OF h1 h2 h3, of d c for d c]
  note whole = inst [THEN conjunct2, THEN conjunct2, THEN conjunct2, THEN conjunct2,
      THEN conjunct1, THEN spec, THEN conjunct2, THEN conjunct2, THEN spec, THEN mp]
  have p: "present [Num 5, Missing, Num 11, Missing] = map (\<lambda>n. Num (of_int n)) [5, 11]"
    by (simp add: present_def)
  have "mean ?P [Num 5, Missing, Num 11, Missing]
      = round64 (of_int (sum_list [5, 11]) / of_nat (length [5 :: int, 11]))"
    by (rule whole) (simp add: p)
  then have m: "mean ?P [Num 5, Missing, Num 11, Missing] = Num 8"
    using round64_int [of 8] by simp
  have "rows (fst (clean_data ?P ?T ''f.xlsx''))
      = [[Num 1, Num 5], [Str ''x'', Num 8], [Num 1, Num 11], [Str ''y'', Num 8]]"
    by (simp add: fill_both_boxes_example)
  with h1 h2 h3 bf m show ?thesis by blast
qed

subsection \<open>Column selection\<close>

lemma filter_upt_eq: "j < n \<Longrightarrow> filter (\<lambda>i. i = j) [0..<n] = [j]"
  by (induction n) (auto simp: less_Suc_eq)

lemma filter_index_distinct:
  assumes "distinct xs" "j < length xs"
  shows "filter (\<lambda>i. xs ! i = xs ! j) [0..<length xs] = [j]"
proof -
  have "filter (\<lambda>i. xs ! i = xs ! j) [0..<length xs] = filter (\<lambda>i. i = j) [0..<length xs]"
    using assms by (intro filter_cong refl) (simp add: nth_eq_iff_index_eq)
  then show ?thesis using assms(2) by (simp add: filter_upt_eq)
qed

lemma positions_bound: "j \<in> set (positions ls key) \<Longrightarrow> j < length ls"
  by (auto simp: positions_def)

lemma positions_labels:
  "distinct ls \<Longrightarrow> set key \<subseteq> set ls \<Longrightarrow> map (\<lambda>j. ls ! j) (positions ls key) = key"
proof (induction key)
  case Nil
  show ?case by (simp add: positions_def)
next
  case (Cons k key)
  then obtain j where j: "j < length ls" "ls ! j = k"
    by (auto simp: in_set_conv_nth)
  have "filter (\<lambda>i. ls ! i = k) [0..<length ls] = [j]"
    using filter_index_distinct [OF Cons.prems(1) j(1)] j(2) by simp
  moreover have "map (\<lambda>j. ls ! j) (positions ls key) = key"
    using Cons by simp
  ultimately show ?case using j(2) by (simp add: positions_def)
qed

lemma positions_length:
  assumes "distinct ls" "set key \<subseteq> set ls"
  shows "length (positions ls key) = length key"
  using positions_labels [OF assms, THEN arg_cong, of length] by simp

lemma positions_nth:
  assumes "distinct ls" "set key \<subseteq> set ls" "k < length key" "j < length ls" "ls ! j = key ! k"
  shows "positions ls key ! k = j"
proof -
  have len: "k < length (positions ls key)" using assms by (simp add: positions_length)
  then have "positions ls key ! k < length ls"
    using positions_bound nth_mem by blast
  moreover have "ls ! (positions ls key ! k) = key ! k"
    using positions_labels [OF assms(1,2), THEN arg_cong, of "\<lambda>xs. xs ! k"] len by simp
  ultimately show ?thesis
    using assms(1,4,5) by (metis nth_eq_iff_index_eq)
qed

lemma positions_all:
  assumes "distinct ls"
  shows "positions ls ls = [0..<length ls]"
proof (rule nth_equalityI)
  show "length (positions ls ls) = length [0..<length ls]"
    using assms by (simp add: positions_length)
next
  fix i assume "i < length (positions ls ls)"
  then have "i < length ls" using assms by (simp add: positions_length)
  then show "positions ls ls ! i = [0..<length ls] ! i"
    using positions_nth [OF assms subset_refl, of i i] by simp
qed

lemma getitem_columns_found:
  "set key \<subseteq> set (labels df) \<Longrightarrow>
   getitem_columns df key =
     Inr \<lparr>columns = map (\<lambda>j. columns df ! j) (positions (labels df) key),
          rows = map (\<lambda>r. map (\<lambda>j. cell_at r j) (positions (labels df) key)) (rows df)\<rparr>"
  by (auto simp: getitem_columns_def positions_def Let_def filter_empty_conv)

lemma map_cell_at_row: "map (\<lambda>j. cell_at r j) [0..<length r] = r"
  by (rule nth_equalityI) (simp_all add: cell_at_def)

lemma getitem_columns_all:
  assumes "wf_table df"
  shows "getitem_columns df (labels df) = Inr df"
proof -
  have d: "distinct (labels df)" using assms by (simp add: wf_table_def labels_def)
  have r: "map (\<lambda>j. cell_at r j) [0..<length (columns df)] = r" if "r \<in> set (rows df)" for r
    using wf_table_rows [OF assms that] map_cell_at_row [of r] by simp
  have rs: "map (\<lambda>r. map (\<lambda>j. cell_at r j) [0..<length (columns df)]) (rows df) = rows df"
  proof -
    have "map (\<lambda>r. map (\<lambda>j. cell_at r j) [0..<length (columns df)]) (rows df)
        = map (\<lambda>r. r) (rows df)"
      by (intro map_cong refl) (rule r)
    then show ?thesis by simp
  qed
  have n: "length (labels df) = length (columns df)" by (simp add: labels_def)
  have p: "positions (labels df) (labels df) = [0..<length (columns df)]"
    unfolding n [symmetric] using d by (rule positions_all)
  have "getitem_columns df (labels df) =
      Inr \<lparr>columns = map (\<lambda>j. columns df ! j) [0..<length (columns df)],
           rows = map (\<lambda>r. map (\<lambda>j. cell_at r j) [0..<length (columns df)]) (rows df)\<rparr>"
    using getitem_columns_found [of "labels df" df, OF subset_refl] unfolding p .
  then show ?thesis by (simp add: rs map_nth)
qed

text \<open>
  C5: when the picker returns all column labels in their order (its default),
  \<^verbatim>\<open>handle_column_selection\<close> returns the table itself; the projection
  \<^verbatim>\<open>df[labels]\<close> that the other branches use agrees on a well-formed table.
\<close>

theorem select_all_columns_is_identity:
  "(multiselect e (''Select columns for '' @ file_name) (labels df) = labels df \<longrightarrow>
      handle_column_selection e df file_name = Inr df)
   \<and> (wf_table df \<longrightarrow> getitem_columns df (labels df) = Inr df)"
  by (simp add: handle_column_selection_def getitem_columns_all)

theorem select_all_columns_is_identity_witness:
  "multiselect (toy_page False False id) (''Select columns for '' @ ''f.csv'')
       (labels \<lparr>columns = [(''a'', Float64), (''b'', Object)],
                rows = [[Num 1, Str ''x''], [Num 2, Missing]]\<rparr>)
     = labels \<lparr>columns = [(''a'', Float64), (''b'', Object)],
               rows = [[Num 1, Str ''x''], [Num 2, Missing]]\<rparr>
   \<and> wf_table \<lparr>columns = [(''a'', Float64), (''b'', Object)],
                rows = [[Num 1, Str ''x''], [Num 2, Missing]]\<rparr>
   \<and> handle_column_selection (toy_page False False id)
         \<lparr>columns = [(''a'', Float64), (''b'', Object)],
          rows = [[Num 1, Str ''x''], [Num 2, Missing]]\<rparr> ''f.csv''
       = Inr \<lparr>columns = [(''a'', Float64), (''b'', Object)],
              rows = [[Num 1, Str ''x''], [Num 2, Missing]]\<rparr>
   \<and> getitem_columns
         \<lparr>columns = [(''a'', Float64), (''b'', Object)],
          rows = [[Num 1, Str ''x''], [Num 2, Missing]]\<rparr> [''a'', ''b'']
       = Inr \<lparr>columns = [(''a'', Float64), (''b'', Object)],
              rows = [[Num 1, Str ''x''], [Num 2, Missing]]\<rparr>"
  using select_all_columns_is_identity
    [of "toy_page False False id" "''f.csv''"
        "\<lparr>columns = [(''a'', Float64), (''b'', Object)],
          rows = [[Num 1, Str ''x''], [Num 2, Missing]]\<rparr>"]
  by (simp add: toy_page_def wf_table_def labels_def)

lemma handle_column_selection_cases:
  "handle_column_selection e df file_name =
     (if multiselect e (''Select columns for '' @ file_name) (labels df) = labels df
      then Inr df
      else getitem_columns df (multiselect e (''Select columns for '' @ file_name) (labels df)))"
  by (simp add: handle_column_selection_def Let_def)

lemma selected_table:
  assumes "wf_table df" "set S \<subseteq> set (labels df)"
  defines "df' \<equiv> \<lparr>columns = map (\<lambda>j. columns df ! j) (positions (labels df) S),
          rows = map (\<lambda>r. map (\<lambda>j. cell_at r j) (positions (labels df) S)) (rows df)\<rparr>"
  shows "labels df' = S \<and> length (rows df') = length (rows df)
     \<and> (\<forall>i<length (rows df). length (rows df' ! i) = length S)
     \<and> (\<forall>k<length S. \<forall>j<length (columns df). labels df ! j = S ! k \<longrightarrow>
           columns df' ! k = columns df ! j
           \<and> (\<forall>i<length (rows df). rows df' ! i ! k = rows df ! i ! j))"
proof -
  let ?idx = "positions (labels df) S"
  have d: "distinct (labels df)" using assms(1) by (simp add: wf_table_def labels_def)
  have len: "length ?idx = length S" using d assms(2) by (rule positions_length)
  have "labels df' = map (\<lambda>j. fst (columns df ! j)) ?idx"
    by (simp add: df'_def labels_def comp_def)
  also have "\<dots> = map (\<lambda>j. labels df ! j) ?idx"
    by (intro map_cong refl) (auto dest: positions_bound simp: labels_def)
  also have "\<dots> = S"
    using d assms(2) by (rule positions_labels)
  finally have l: "labels df' = S" .
  have w: "\<forall>i<length (rows df). length (rows df' ! i) = length S"
    using len by (simp add: df'_def)
  have c: "columns df' ! k = columns df ! j
           \<and> (\<forall>i<length (rows df). rows df' ! i ! k = rows df ! i ! j)"
    if "k < length S" "j < length (columns df)" "labels df ! j = S ! k" for k j
  proof -
    have idx: "?idx ! k = j"
      using positions_nth [OF d assms(2) that(1) _ that(3)] that(2) by (simp add: labels_def)
    have "rows df' ! i ! k = rows df ! i ! j" if "i < length (rows df)" for i
    proof -
      have "length (rows df ! i) = length (columns df)"
        using assms(1) that by (simp add: wf_table_rows)
      then show ?thesis
        using that \<open>k < length S\<close> \<open>j < length (columns df)\<close> len idx
        by (simp add: df'_def cell_at_def)
    qed
    then show ?thesis
      using that(1) len idx by (simp add: df'_def)
  qed
  show ?thesis using l w c by (simp add: df'_def)
qed

text \<open>
  C6: for a well-formed table and a selection of its labels, the empty selection
  included, \<^verbatim>\<open>handle_column_selection\<close> returns a table (no error) with as many
  rows as the original, every row as wide as the selection, the labels of the selection
  in the order of the selection, and in each column the type and the cells that the
  column of that label has in the original.
\<close>

theorem select_subset_of_columns:
  assumes "wf_table df"
    and "multiselect e (''Select columns for '' @ file_name) (labels df) = S"
    and "set S \<subseteq> set (labels df)"
  shows "\<exists>df'. handle_column_selection e df file_name = Inr df'
     \<and> labels df' = S
     \<and> length (rows df') = length (rows df)
     \<and> (\<forall>i<length (rows df). length (rows df' ! i) = length S)
     \<and> (\<forall>k<length S. \<forall>j<length (columns df). labels df ! j = S ! k \<longrightarrow>
           columns df' ! k = columns df ! j
           \<and> (\<forall>i<length (rows df). rows df' ! i ! k = rows df ! i ! j))"
proof (cases "S = labels df")
  case True
  have d: "distinct (labels df)" using assms(1) by (simp add: wf_table_def labels_def)
  have n: "length (labels df) = length (columns df)" by (simp add: labels_def)
  have "j = k" if "k < length S" "j < length (columns df)" "labels df ! j = S ! k" for j k
    using that True n nth_eq_iff_index_eq [OF d, of j k] by simp
  moreover have "length (rows df ! i) = length S" if "i < length (rows df)" for i
    using assms(1) that True n by (simp add: wf_table_rows)
  ultimately show ?thesis
    using True assms(2) by (auto simp: handle_column_selection_cases)
next
  case False
  have "handle_column_selection e df file_name = getitem_columns df S"
    using False assms(2) by (simp add: handle_column_selection_cases)
  then show ?thesis
    using getitem_columns_found [OF assms(3)] selected_table [OF assms(1,3)] by simp
qed

lemma select_reordered_example:
  "handle_column_selection (toy_page False False (\<lambda>options. [''b'', ''a'']))
      \<lparr>columns = [(''a'', Float64), (''b'', Object)],
       rows = [[Num 1, Str ''x''], [Num 2, Missing]]\<rparr> ''f.csv''
    = Inr \<lparr>columns = [(''b'', Object), (''a'', Float64)],
           rows = [[Str ''x'', Num 1], [Missing, Num 2]]\<rparr>"
  by code_simp

lemma select_nothing_example:
  "handle_column_selection (toy_page False False (\<lambda>options. []))
      \<lparr>columns = [(''a'', Float64), (''b'', Object)],
       rows = [[Num 1, Str ''x''], [Num 2, Missing]]\<rparr> ''f.csv''
    = Inr \<lparr>columns = [], rows = [[], []]\<rparr>"
  by code_simp

theorem select_subset_of_columns_witness:
  "wf_table \<lparr>columns = [(''a'', Float64), (''b'', Object)],
             rows = [[Num 1, Str ''x''], [Num 2, Missing]]\<rparr>
   \<and> multiselect (toy_page False False (\<lambda>options. [''b'', ''a'']))
       (''Select columns for '' @ ''f.csv'')
       (labels \<lparr>columns = [(''a'', Float64), (''b'', Object)],
                rows = [[Num 1, Str ''x''], [Num 2, Missing]]\<rparr>) = [''b'', ''a'']
   \<and> set [''b'', ''a''] \<subseteq> set (labels \<lparr>columns = [(''a'', Float64), (''b'', Object)],
                             rows = [[Num 1, Str ''x''], [Num 2, Missing]]\<rparr>)
   \<and> (\<exists>df'. handle_column_selection (toy_page False False (\<lambda>options. [''b'', ''a'']))
               \<lparr>columns = [(''a'', Float64), (''b'', Object)],
                rows = [[Num 1, Str ''x''], [Num 2, Missing]]\<rparr> ''f.csv'' = Inr df'
            \<and> labels df' = [''b'', ''a''] \<and> length (rows df') = 2
            \<and> columns df' ! 0 = (''b'', Object) \<and> columns df' ! 1 = (''a'', Float64)
            \<and> rows df' ! 0 ! 0 = Str ''x'' \<and> rows df' ! 0 ! 1 = Num 1
            \<and> rows df' ! 1 ! 0 = Missing \<and> rows df' ! 1 ! 1 = Num 2)
   \<and> multiselect (toy_page False False (\<lambda>options. []))
       (''Select columns for '' @ ''f.csv'')
       (labels \<lparr>columns = [(''a'', Float64), (''b'', Object)],
                rows = [[Num 1, Str ''x''], [Num 2, Missing]]\<rparr>) = []
   \<and> (\<exists>df'. handle_column_selection (toy_page False False (\<lambda>options. []))
               \<lparr>columns = [(''a'', Float64), (''b'', Object)],
                rows = [[Num 1, Str ''x''], [Num 2, Missing]]\<rparr> ''f.csv'' = Inr df'
            \<and> labels df' = [] \<and> length (rows df') = 2
            \<and> length (rows df' ! 0) = 0 \<and> length (rows df' ! 1) = 0)"
proof -
  let ?T = "\<lparr>columns = [(''a'', Float64), (''b'', Object)],
             rows = [[Num 1, Str ''x''], [Num 2, Missing]]\<rparr>"
  let ?P = "toy_page False False (\<lambda>options. [''b'', ''a''])"
  let ?Q = "toy_page False False (\<lambda>options. [])"
  have h1: "wf_table ?T" by (simp add: wf_table_def)
  have h2: "multiselect ?P (''Select columns for '' @ ''f.csv'') (labels ?T) = [''b'', ''a'']"
    by (simp add: toy_page_def)
  have h3: "set [''b'', ''a''] \<subseteq> set (labels ?T)" by (simp add: labels_def)
  have g2: "multiselect ?Q (''Select columns for '' @ ''f.csv'') (labels ?T) = []"
    by (simp add: toy_page_def)
  have g3: "set [] \<subseteq> set (labels ?T)" by simp
  from select_subset_of_columns [OF h1 h2 h3]
  obtain df' where a: "handle_column_selection ?P ?T ''f.csv'' = Inr df'"
    "labels df' = [''b'', ''a'']" "length (rows df') = length (rows ?T)"
    "\<forall>k<length [''b'', ''a'']. \<forall>j<length (columns ?T). labels ?T ! j = [''b'', ''a''] ! k \<longrightarrow>
        columns df' ! k = columns ?T ! j
        \<and> (\<forall>i<length (rows ?T). rows df' ! i ! k = rows ?T ! i ! j)"
    by blast
  have k0: "columns df' ! 0 = columns ?T ! 1
      \<and> (\<forall>i<length (rows ?T). rows df' ! i ! 0 = rows ?T ! i ! 1)"
    using a(4) [rule_format, of 0 1] by (simp add: labels_def)
  have k1: "columns df' ! 1 = columns ?T ! 0
      \<and> (\<forall>i<length (rows ?T). rows df' ! i ! 1 = rows ?T ! i ! 0)"
    using a(4) [rule_format, of 1 0] by (simp add: labels_def)
  have first: "\<exists>df'. handle_column_selection ?P ?T ''f.csv'' = Inr df'
            \<and> labels df' = [''b'', ''a''] \<and> length (rows df') = 2
            \<and> columns df' ! 0 = (''b'', Object) \<and> columns df' ! 1 = (''a'', Float64)
            \<and> rows df' ! 0 ! 0 = Str ''x'' \<and> rows df' ! 0 ! 1 = Num 1
            \<and> rows df' ! 1 ! 0 = Missing \<and> rows df' ! 1 ! 1 = Num 2"
    using a(1-3) k0 k1 by (intro exI [of _ df']) simp
  from select_subset_of_columns [OF h1 g2 g3]
  obtain df'' where b: "handle_column_selection ?Q ?T ''f.csv'' = Inr df''"
    "labels df'' = []" "length (rows df'') = length (rows ?T)"
    "\<forall>i<length (rows ?T). length (rows df'' ! i) = length ([] :: string list)"
    by blast
  have second: "\<exists>df'. handle_column_selection ?Q ?T ''f.csv'' = Inr df'
            \<and> labels df' = [] \<and> length (rows df') = 2
            \<and> length (rows df' ! 0) = 0 \<and> length (rows df' ! 1) = 0"
    using b by (intro exI [of _ df'']) simp
  from h1 h2 h3 first g2 second show ?thesis by blast
qed

lemma getitem_columns_missing:
  assumes "c \<in> set key" "c \<notin> set (labels df)"
  shows "\<exists>missing. getitem_columns df key = Inl (KeyError missing)
     \<and> set missing = {k \<in> set key. k \<notin> set (labels df)}"
proof -
  let ?m = "filter (\<lambda>k. k \<notin> set (labels df)) key"
  have ne: "?m \<noteq> []" using assms by (auto simp: filter_empty_conv)
  show ?thesis
  proof (cases "length ?m = length key")
    case True
    then have "?m = key" by (metis filter_True length_filter_less less_irrefl_nat filter_id_conv linorder_neqE_nat length_filter_le not_le)
    then have "set key = {k \<in> set key. k \<notin> set (labels df)}" by (metis set_filter)
    then show ?thesis using ne True by (simp add: getitem_columns_def Let_def)
  next
    case False
    then show ?thesis using ne by (simp add: getitem_columns_def Let_def set_keep_first)
  qed
qed

text \<open>
  C8: when the selection holds a label \<open>c\<close> that is not a column of the table,
  \<^verbatim>\<open>handle_column_selection\<close> returns no table: it raises KeyError, and the
  labels the error names are those of the selection that are not columns, \<open>c\<close>
  among them (\<^verbatim>\<open>Foo\<close> for a selection asking for \<^verbatim>\<open>Foo\<close>).
\<close>

theorem select_unknown_column_fails:
  assumes "multiselect e (''Select columns for '' @ file_name) (labels df) = S"
    and "c \<in> set S" and "c \<notin> set (labels df)"
  shows "\<exists>missing. handle_column_selection e df file_name = Inl (KeyError missing)
     \<and> c \<in> set missing
     \<and> set missing = {k \<in> set S. k \<notin> set (labels df)}"
proof -
  have "S \<noteq> labels df" using assms(2,3) by auto
  then have "handle_column_selection e df file_name = getitem_columns df S"
    using assms(1) by (simp add: handle_column_selection_cases)
  then show ?thesis
    using getitem_columns_missing [OF assms(2,3)] assms(2,3) by auto
qed

lemma select_foo_example:
  "handle_column_selection (toy_page False False (\<lambda>options. [''Foo'']))
      \<lparr>columns = [(''a'', Float64), (''b'', Object)],
       rows = [[Num 1, Str ''x''], [Num 2, Missing]]\<rparr> ''f.csv''
    = Inl (KeyError [''Foo''])"
  by code_simp

theorem select_unknown_column_fails_witness:
  "multiselect (toy_page False False (\<lambda>options. [''Foo''])) (''Select columns for '' @ ''f.csv'')
       (labels \<lparr>columns = [(''a'', Float64), (''b'', Object)],
                rows = [[Num 1, Str ''x''], [Num 2, Missing]]\<rparr>) = [''Foo'']
   \<and> ''Foo'' \<in> set [''Foo'']
   \<and> ''Foo'' \<notin> set (labels \<lparr>columns = [(''a'', Float64), (''b'', Object)],
                               rows = [[Num 1, Str ''x''], [Num 2, Missing]]\<rparr>)
   \<and> handle_column_selection (toy_page False False (\<lambda>options. [''Foo'']))
        \<lparr>columns = [(''a'', Float64), (''b'', Object)],
         rows = [[Num 1, Str ''x''], [Num 2, Missing]]\<rparr> ''f.csv''
       = Inl (KeyError [''Foo''])"
proof -
  let ?T = "\<lparr>columns = [(''a'', Float64), (''b'', Object)],
             rows = [[Num 1, Str ''x''], [Num 2, Missing]]\<rparr>"
  let ?P = "toy_page False False (\<lambda>options. [''Foo''])"
  have h1: "multiselect ?P (''Select columns for '' @ ''f.csv'') (labels ?T) = [''Foo'']"
    by (simp add: toy_page_def)
  have h2: "''Foo'' \<in> set [''Foo'']" by simp
  have h3: "''Foo'' \<notin> set (labels ?T)" by (simp add: labels_def)
  from select_unknown_column_fails [OF h1 h2 h3]
  obtain missing where m: "handle_column_selection ?P ?T ''f.csv'' = Inl (KeyError missing)"
    "set missing = {k \<in> set [''Foo'']. k \<notin> set (labels ?T)}" by blast
  have "handle_column_selection ?P ?T ''f.csv'' = Inl (KeyError [''Foo''])"
    using m(1) select_foo_example by simp
  with h1 h2 h3 show ?thesis by blast
qed

subsection \<open>The pass over the uploads\<close>

lemma warnings_Nil [simp]: "warnings [] = []"
  by (simp add: warnings_def)

lemma headers_Nil [simp]: "headers [] = []"
  by (simp add: headers_def)

lemma downloads_Nil [simp]: "downloads [] = []"
  by (simp add: downloads_def)

lemma warnings_Cons [simp]:
  "warnings (ev # evs) = (case ev of Warning w \<Rightarrow> [w] | _ \<Rightarrow> []) @ warnings evs"
  by (simp add: warnings_def)

lemma headers_Cons [simp]:
  "headers (ev # evs) = (case ev of Header h \<Rightarrow> [h] | _ \<Rightarrow> []) @ headers evs"
  by (simp add: headers_def)

lemma downloads_Cons [simp]:
  "downloads (ev # evs) =
     (case ev of Download_button l b n m \<Rightarrow> [n] | _ \<Rightarrow> []) @ downloads evs"
  by (simp add: downloads_def)

lemma warnings_append [simp]: "warnings (xs @ ys) = warnings xs @ warnings ys"
  by (simp add: warnings_def)

lemma headers_append [simp]: "headers (xs @ ys) = headers xs @ headers ys"
  by (simp add: headers_def)

lemma downloads_append [simp]: "downloads (xs @ ys) = downloads xs @ downloads ys"
  by (simp add: downloads_def)

lemma load_data_quiet:
  "warnings (snd (load_data e file)) = [] \<and> headers (snd (load_data e file)) = []
   \<and> downloads (snd (load_data e file)) = []"
  by (simp add: load_data_def Let_def split: sum.split)

lemma clean_data_quiet:
  "warnings (snd (clean_data e df f)) = [] \<and> headers (snd (clean_data e df f)) = []
   \<and> downloads (snd (clean_data e df f)) = []"
  by (simp add: clean_data_def Let_def)

lemma convert_file_quiet:
  "warnings (convert_file e df f fmt) = [] \<and> headers (convert_file e df f fmt) = []"
  by (simp add: convert_file_def Let_def split: sum.split)

lemma convert_file_downloads:
  "\<forall>df msg. to_csv e df \<noteq> Inl msg \<and> to_excel e df \<noteq> Inl msg \<Longrightarrow>
   downloads (convert_file e df f fmt) = [download_name f (new_ext_of fmt)]"
  by (simp add: convert_file_def Let_def new_ext_of_def split: sum.split)

lemma convert_file_downloads_le: "length (downloads (convert_file e df f fmt)) \<le> 1"
  by (simp add: convert_file_def Let_def split: sum.split)

lemma handle_column_selection_ok:
  assumes "\<forall>label options. set (multiselect e label options) \<subseteq> set options"
  shows "\<exists>df'. handle_column_selection e df f = Inr df'"
proof -
  let ?S = "multiselect e (''Select columns for '' @ f) (labels df)"
  have "set ?S \<subseteq> set (labels df)" using assms by blast
  then show ?thesis
    using getitem_columns_found [of ?S df] by (simp add: handle_column_selection_cases)
qed

lemma process_file_skipped:
  assumes "skipped e file"
  shows "process_file e fmt n i file =
     ([Progress (of_nat (i + 1) / of_nat n), Header (''Processing: '' @ name file)]
        @ snd (load_data e file)
        @ [Warning (''Skipping empty/invalid file: '' @ name file)], None)"
  using assms
  by (cases "load_data e file")
     (auto simp: process_file_def skipped_def Let_def split: option.splits)

lemma process_file_kept:
  assumes "\<not> skipped e file"
    and "\<forall>label options. set (multiselect e label options) \<subseteq> set options"
  shows "\<exists>df df1 df2 cev vev.
     fst (load_data e file) = Some df \<and> clean_data e df (name file) = (df1, cev)
     \<and> handle_column_selection e df1 (name file) = Inr df2
     \<and> warnings vev = [] \<and> headers vev = [] \<and> downloads vev = []
     \<and> process_file e fmt n i file =
        ([Progress (of_nat (i + 1) / of_nat n), Header (''Processing: '' @ name file)]
           @ snd (load_data e file)
           @ [Size_written (fsize file), Dataframe (head df)] @ cev @ vev
           @ convert_file e df2 (name file) fmt, None)"
proof -
  obtain loaded lev where l: "load_data e file = (loaded, lev)" by (cases "load_data e file")
  with assms(1) obtain df where df: "loaded = Some df" "\<not> empty df"
    by (auto simp: skipped_def split: option.splits)
  obtain df1 cev where c: "clean_data e df (name file) = (df1, cev)"
    by (cases "clean_data e df (name file)")
  obtain df2 where s: "handle_column_selection e df1 (name file) = Inr df2"
    using handle_column_selection_ok [OF assms(2)] by blast
  let ?vev = "if checkbox e (''Show visualization for '' @ name file)
              then [Bar_chart (numeric_head2 df2)] else []"
  have "warnings ?vev = [] \<and> headers ?vev = [] \<and> downloads ?vev = []"
    by simp
  moreover have "process_file e fmt n i file =
        ([Progress (of_nat (i + 1) / of_nat n), Header (''Processing: '' @ name file)]
           @ snd (load_data e file)
           @ [Size_written (fsize file), Dataframe (head df)] @ cev @ ?vev
           @ convert_file e df2 (name file) fmt, None)"
    using l df c s by (simp add: process_file_def Let_def)
  ultimately show ?thesis using l df c s by (metis fst_conv)
qed

lemma process_file_summary:
  assumes "\<forall>label options. set (multiselect e label options) \<subseteq> set options"
  shows "snd (process_file e fmt n i file) = None
     \<and> headers (fst (process_file e fmt n i file)) = [''Processing: '' @ name file]
     \<and> warnings (fst (process_file e fmt n i file)) =
         (if skipped e file then [''Skipping empty/invalid file: '' @ name file] else [])
     \<and> (skipped e file \<longrightarrow> downloads (fst (process_file e fmt n i file)) = [])
     \<and> length (downloads (fst (process_file e fmt n i file))) \<le> 1
     \<and> ((\<forall>df msg. to_csv e df \<noteq> Inl msg \<and> to_excel e df \<noteq> Inl msg) \<longrightarrow> \<not> skipped e file \<longrightarrow>
          downloads (fst (process_file e fmt n i file)) = [download_name (name file) (new_ext_of fmt)])"
proof (cases "skipped e file")
  case True
  show ?thesis
    using True load_data_quiet [of e "file"]
    by (simp add: process_file_skipped [OF True])
next
  case False
  from process_file_kept [OF False assms, of fmt n i]
  obtain df df1 df2 cev vev where k:
    "clean_data e df (name file) = (df1, cev)"
    "warnings vev = []" "headers vev = []" "downloads vev = []"
    "process_file e fmt n i file =
        ([Progress (of_nat (i + 1) / of_nat n), Header (''Processing: '' @ name file)]
           @ snd (load_data e file)
           @ [Size_written (fsize file), Dataframe (head df)] @ cev @ vev
           @ convert_file e df2 (name file) fmt, None)"
    by blast
  have q: "warnings cev = []" "headers cev = []" "downloads cev = []"
    using clean_data_quiet [of e df "name file"] k(1) by simp_all
  show ?thesis
    using False load_data_quiet [of e "file"] convert_file_quiet [of e df2 "name file" fmt]
      convert_file_downloads [of e df2 "name file" fmt]
      convert_file_downloads_le [of e df2 "name file" fmt]
    by (simp add: k(2-5) q)
qed

lemma process_files_summary:
  assumes "\<forall>label options. set (multiselect e label options) \<subseteq> set options"
  shows "snd (process_files e fmt n i files) = None
     \<and> headers (fst (process_files e fmt n i files)) = map (\<lambda>f. ''Processing: '' @ name f) files
     \<and> warnings (fst (process_files e fmt n i files)) =
         map (\<lambda>f. ''Skipping empty/invalid file: '' @ name f) (filter (skipped e) files)
     \<and> length (downloads (fst (process_files e fmt n i files)))
         \<le> length (filter (\<lambda>f. \<not> skipped e f) files)
     \<and> ((\<forall>df msg. to_csv e df \<noteq> Inl msg \<and> to_excel e df \<noteq> Inl msg) \<longrightarrow>
          downloads (fst (process_files e fmt n i files)) =
            map (\<lambda>f. download_name (name f) (new_ext_of fmt)) (filter (\<lambda>f. \<not> skipped e f) files))"
proof (induction files arbitrary: i)
  case Nil
  show ?case by simp
next
  case (Cons f rest)
  obtain ev where p: "process_file e fmt n i f = (ev, None)"
    using process_file_summary [OF assms, of fmt n i f]
    by (cases "process_file e fmt n i f") simp
  obtain ev' where r: "process_files e fmt n (i + 1) rest = (ev', None)"
    using Cons.IH [of "i + 1"] by (cases "process_files e fmt n (i + 1) rest") simp
  have all: "process_files e fmt n i (f # rest) = (ev @ ev', None)"
    using p r by simp
  show ?case
    unfolding all
    using process_file_summary [OF assms, of fmt n i f] Cons.IH [of "i + 1"]
    unfolding p r
    by (cases "skipped e file") (simp_all del: process_files.simps)
qed

lemma skipped_iff:
  "(fst (load_data e f) = None \<or> (\<exists>df. fst (load_data e f) = Some df \<and> rows df = []))
   \<Longrightarrow> skipped e f"
  by (auto simp: skipped_def empty_def)

lemma main_run:
  assumes "uploaded_files \<noteq> []"
    and "\<forall>label options. set (multiselect e label options) \<subseteq> set options"
  shows "\<exists>ev. process_files e (sidebar_radio e ''Choose output format:'' [''CSV'', ''Excel''])
                (length uploaded_files) 0 uploaded_files = (ev, None)
     \<and> main e uploaded_files =
         (Progress 0 # ev @ [Progress_empty, Success all_processed], None)"
proof -
  let ?fmt = "sidebar_radio e ''Choose output format:'' [''CSV'', ''Excel'']"
  obtain ev where p: "process_files e ?fmt (length uploaded_files) 0 uploaded_files = (ev, None)"
    using process_files_summary [OF assms(2), of ?fmt "length uploaded_files" 0 uploaded_files]
    by (cases "process_files e ?fmt (length uploaded_files) 0 uploaded_files") simp
  then show ?thesis using assms(1) by (simp add: main_def Let_def)
qed

text \<open>
  C4: for a non-empty batch (the picker returning offered labels, as the widget does) no
  exception leaves the loop and the run ends with the closing message. Every file is
  processed in upload order; the warnings are exactly those of the skipped files, by
  name and in order, and a file whose load fails or gives zero rows is one of them; the
  downloads are at most the files not skipped, and exactly those when the writers do
  not fail. Three files of which only the second is skipped (it loads with zero rows)
  give two downloads and the one warning of the second.
\<close>

theorem main_skips_and_completes:
  assumes "uploaded_files \<noteq> []"
    and "\<forall>label options. set (multiselect e label options) \<subseteq> set options"
  shows "snd (main e uploaded_files) = None
     \<and> last (fst (main e uploaded_files)) = Success all_processed
     \<and> headers (fst (main e uploaded_files)) = map (\<lambda>f. ''Processing: '' @ name f) uploaded_files
     \<and> warnings (fst (main e uploaded_files)) =
         map (\<lambda>f. ''Skipping empty/invalid file: '' @ name f) (filter (skipped e) uploaded_files)
     \<and> (\<forall>f\<in>set uploaded_files.
          fst (load_data e f) = None \<or> (\<exists>df. fst (load_data e f) = Some df \<and> rows df = []) \<longrightarrow>
          ''Skipping empty/invalid file: '' @ name f \<in> set (warnings (fst (main e uploaded_files))))
     \<and> length (downloads (fst (main e uploaded_files)))
         \<le> length (filter (\<lambda>f. \<not> skipped e f) uploaded_files)
     \<and> ((\<forall>df msg. to_csv e df \<noteq> Inl msg \<and> to_excel e df \<noteq> Inl msg) \<longrightarrow>
          downloads (fst (main e uploaded_files)) =
            map (\<lambda>f. download_name (name f)
                       (new_ext_of (sidebar_radio e ''Choose output format:'' [''CSV'', ''Excel''])))
              (filter (\<lambda>f. \<not> skipped e f) uploaded_files))
     \<and> (\<forall>f1 f2 f3. uploaded_files = [f1, f2, f3] \<and> \<not> skipped e f1
            \<and> (\<exists>df. fst (load_data e f2) = Some df \<and> rows df = []) \<and> \<not> skipped e f3
            \<and> (\<forall>df msg. to_csv e df \<noteq> Inl msg \<and> to_excel e df \<noteq> Inl msg) \<longrightarrow>
          length (downloads (fst (main e uploaded_files))) = 2
          \<and> warnings (fst (main e uploaded_files)) = [''Skipping empty/invalid file: '' @ name f2])"
proof -
  let ?fmt = "sidebar_radio e ''Choose output format:'' [''CSV'', ''Excel'']"
  let ?W = "\<forall>df msg. to_csv e df \<noteq> Inl msg \<and> to_excel e df \<noteq> Inl msg"
  from main_run [OF assms] obtain ev where
    p: "process_files e ?fmt (length uploaded_files) 0 uploaded_files = (ev, None)" and
    m: "main e uploaded_files =
         (Progress 0 # ev @ [Progress_empty, Success all_processed], None)"
    by blast
  note sum = process_files_summary [OF assms(2), of ?fmt "length uploaded_files" 0 uploaded_files,
      unfolded p]
  have c1: "snd (main e uploaded_files) = None" by (simp add: m)
  have c2: "last (fst (main e uploaded_files)) = Success all_processed"
    by (simp add: m)
  have c3: "headers (fst (main e uploaded_files)) = map (\<lambda>f. ''Processing: '' @ name f) uploaded_files"
    using sum by (simp add: m)
  have c4: "warnings (fst (main e uploaded_files)) =
         map (\<lambda>f. ''Skipping empty/invalid file: '' @ name f) (filter (skipped e) uploaded_files)"
    using sum by (simp add: m)
  have c5: "''Skipping empty/invalid file: '' @ name f \<in> set (warnings (fst (main e uploaded_files)))"
    if "f \<in> set uploaded_files"
      "fst (load_data e f) = None \<or> (\<exists>df. fst (load_data e f) = Some df \<and> rows df = [])" for f
  proof -
    have "skipped e f" using that(2) by (rule skipped_iff)
    with that(1) have "f \<in> set (filter (skipped e) uploaded_files)" by simp
    then show ?thesis unfolding c4 set_map by (rule imageI)
  qed
  have c6: "length (downloads (fst (main e uploaded_files)))
         \<le> length (filter (\<lambda>f. \<not> skipped e f) uploaded_files)"
    using sum by (simp add: m)
  have c7: "downloads (fst (main e uploaded_files)) =
            map (\<lambda>f. download_name (name f) (new_ext_of ?fmt))
              (filter (\<lambda>f. \<not> skipped e f) uploaded_files)" if ?W
    using sum that by (simp add: m)
  have c8: "length (downloads (fst (main e uploaded_files))) = 2
          \<and> warnings (fst (main e uploaded_files)) = [''Skipping empty/invalid file: '' @ name f2]"
    if "uploaded_files = [f1, f2, f3]" "\<not> skipped e f1"
      "\<exists>df. fst (load_data e f2) = Some df \<and> rows df = []" "\<not> skipped e f3" ?W for f1 f2 f3
  proof -
    have "skipped e f2" using that(3) by (simp add: skipped_iff)
    then show ?thesis
      unfolding c4 c7 [OF that(5)] using that(1,2,4) by simp
  qed
  show ?thesis
    using c1 c2 c3 c4 c5 c6 c7 c8 by blast
qed

lemma skipped_examples:
  "\<not> skipped (toy_page False False id) file_a"
  "skipped (toy_page False False id) file_b"
  "\<not> skipped (toy_page False False id) file_c"
  by code_simp+

lemma download_name_examples:
  "download_name ''a.csv'' ''.csv'' = ''a.csv''"
  "download_name ''c.xlsx'' ''.csv'' = ''c.csv''"
  by code_simp+

theorem main_skips_and_completes_witness:
  "[file_a, file_b, file_c] \<noteq> []
   \<and> (\<forall>label options. set (multiselect (toy_page False False id) label options) \<subseteq> set options)
   \<and> snd (main (toy_page False False id) [file_a, file_b, file_c]) = None
   \<and> last (fst (main (toy_page False False id) [file_a, file_b, file_c]))
       = Success all_processed
   \<and> warnings (fst (main (toy_page False False id) [file_a, file_b, file_c]))
       = [''Skipping empty/invalid file: b.csv'']
   \<and> downloads (fst (main (toy_page False False id) [file_a, file_b, file_c]))
       = [''a.csv'', ''c.csv'']"
proof -
  let ?P = "toy_page False False id"
  have h1: "[file_a, file_b, file_c] \<noteq> []" by simp
  have h2: "\<forall>label options. set (multiselect ?P label options) \<subseteq> set options"
    by (simp add: toy_page_def)
  have w: "\<forall>df msg. to_csv ?P df \<noteq> Inl msg \<and> to_excel ?P df \<noteq> Inl msg"
    by (simp add: toy_page_def toy_write_def)
  have r: "sidebar_radio ?P ''Choose output format:'' [''CSV'', ''Excel''] = ''CSV''"
    by (simp add: toy_page_def)
  have n: "name file_a = ''a.csv''" "name file_b = ''b.csv''" "name file_c = ''c.xlsx''"
    by (simp_all add: file_a_def file_b_def file_c_def)
  show ?thesis
    using main_skips_and_completes [OF h1 h2] h2 w
    by (simp add: skipped_examples r n new_ext_of_def download_name_examples)
qed

end
